theory Spec2Isabelle
  imports Main
begin

section \<open>Raw memory, pointers and outcomes\<close>

text \<open>
  The container of \<^verbatim>\<open>vector.h\<close> manages raw storage by hand, so the model has an
  explicit heap. A block of the heap is a list of slots; a slot is either raw storage or
  holds a live object of the element type. A \<^verbatim>\<open>T*\<close> is null, or a block address
  with an element offset, or the result of arithmetic that left every block (\<open>Wild\<close>).
  \<^verbatim>\<open>size_t\<close> values are natural numbers: a size or capacity is a count of slots
  of a block that the memory provider handed out, and the one subtraction the source
  performs on an unchecked size (\<^verbatim>\<open>size_--\<close>) is guarded explicitly.
\<close>

type_synonym addr = nat

datatype 'a slot = Raw | Live 'a

datatype ptr = Null | Ptr addr nat | Wild

datatype ub =
    InvalidPointer
  | DestroyRaw
  | ConstructOverLive
  | ReadRaw
  | BadFree
  | SizeUnderflow

datatype exn = bad_alloc | elem_exception

text \<open>
  The address of a block is its index in the list of all blocks the provider ever handed
  out; a block that was returned leaves \<open>None\<close> at its index, so no address is reused.
  \<open>avail\<close> is the number of slots the provider can still hand out.
\<close>

record 'a heap =
  blocks :: "'a slot list option list"
  avail :: nat

definition block_at :: "'a heap \<Rightarrow> addr \<Rightarrow> 'a slot list option" where
  "block_at h a = (if a < length (blocks h) then blocks h ! a else None)"

definition set_block :: "'a heap \<Rightarrow> addr \<Rightarrow> 'a slot list \<Rightarrow> 'a heap" where
  "set_block h a b = h\<lparr>blocks := (blocks h)[a := Some b]\<rparr>"

definition alloc_block :: "'a heap \<Rightarrow> nat \<Rightarrow> 'a heap" where
  "alloc_block h n = h\<lparr>blocks := blocks h @ [Some (replicate n Raw)], avail := avail h - n\<rparr>"

definition free_block :: "'a heap \<Rightarrow> addr \<Rightarrow> nat \<Rightarrow> 'a heap" where
  "free_block h a n = h\<lparr>blocks := (blocks h)[a := None], avail := avail h + n\<rparr>"

text \<open>
  A call returns normally with a result and a heap, or leaves by an exception with the
  heap as it is at the throw, or has undefined behaviour. No member of \<^verbatim>\<open>Vector\<close>
  is assigned before the last call that can throw, so a thrown outcome carries the heap only:
  the fields of \<^verbatim>\<open>*this\<close> are the ones before the call.
\<close>

datatype ('r, 'a) outcome = Done 'r "'a heap" | Thrown exn "'a heap" | Undefined ub

definition and_then ::
  "('r, 'a) outcome \<Rightarrow> ('r \<Rightarrow> 'a heap \<Rightarrow> ('q, 'a) outcome) \<Rightarrow> ('q, 'a) outcome" where
  "and_then m f =
     (case m of Done r h \<Rightarrow> f r h | Thrown e h \<Rightarrow> Thrown e h | Undefined u \<Rightarrow> Undefined u)"

text \<open>Stack unwinding: an exception that leaves a scope runs the destructor of its local.\<close>

definition unwind ::
  "('r, 'a) outcome \<Rightarrow> ('a heap \<Rightarrow> (unit, 'a) outcome) \<Rightarrow> ('r, 'a) outcome" where
  "unwind m cleanup =
     (case m of
        Done r h \<Rightarrow> Done r h
      | Thrown e h \<Rightarrow>
          (case cleanup h of
             Done _ h' \<Rightarrow> Thrown e h'
           | Thrown e' h' \<Rightarrow> Thrown e h'
           | Undefined u \<Rightarrow> Undefined u)
      | Undefined u \<Rightarrow> Undefined u)"

fun ptr_add :: "ptr \<Rightarrow> nat \<Rightarrow> ptr" where
  "ptr_add (Ptr a i) n = Ptr a (i + n)"
| "ptr_add Null n = (if n = 0 then Null else Wild)"
| "ptr_add Wild n = Wild"

fun ptr_sub :: "ptr \<Rightarrow> nat \<Rightarrow> ptr" where
  "ptr_sub (Ptr a i) n = (if n \<le> i then Ptr a (i - n) else Wild)"
| "ptr_sub Null n = (if n = 0 then Null else Wild)"
| "ptr_sub Wild n = Wild"

text \<open>
  The difference of two pointers, converted to \<^verbatim>\<open>size_t\<close>. It is defined for
  two pointers into one block (or two null pointers); a negative difference has no
  meaningful conversion and is treated as undefined.
\<close>

fun ptr_diff :: "ptr \<Rightarrow> ptr \<Rightarrow> nat option" where
  "ptr_diff (Ptr a i) (Ptr b j) = (if a = b \<and> j \<le> i then Some (i - j) else None)"
| "ptr_diff Null Null = Some 0"
| "ptr_diff _ _ = None"

fun is_live :: "'a slot \<Rightarrow> bool" where
  "is_live Raw = False"
| "is_live (Live x) = True"

fun is_raw :: "'a slot \<Rightarrow> bool" where
  "is_raw Raw = True"
| "is_raw (Live x) = False"

fun live_values :: "'a slot list \<Rightarrow> 'a list" where
  "live_values [] = []"
| "live_values (Raw # ss) = live_values ss"
| "live_values (Live x # ss) = x # live_values ss"

definition read_range :: "'a heap \<Rightarrow> ptr \<Rightarrow> nat \<Rightarrow> 'a slot list option" where
  "read_range h p n =
     (case p of
        Null \<Rightarrow> (if n = 0 then Some [] else None)
      | Wild \<Rightarrow> None
      | Ptr a i \<Rightarrow>
          (case block_at h a of
             None \<Rightarrow> None
           | Some b \<Rightarrow> if i + n \<le> length b then Some (take n (drop i b)) else None))"

definition write_range :: "'a heap \<Rightarrow> ptr \<Rightarrow> 'a slot list \<Rightarrow> 'a heap" where
  "write_range h p xs =
     (case p of
        Ptr a i \<Rightarrow>
          (case block_at h a of
             None \<Rightarrow> h
           | Some b \<Rightarrow> set_block h a (take i b @ xs @ drop (i + length xs) b))
      | _ \<Rightarrow> h)"

section \<open>The element type\<close>

text \<open>
  What the template needs to know about \<^verbatim>\<open>T\<close>: the two traits that
  \<^verbatim>\<open>UninitializedCopyMove\<close> tests, which values the copy constructor and the copy
  assignment accept (they throw on the others), the state a move leaves its source in,
  and the values of value- and default-initialisation. Moves, default construction and
  destruction do not throw.
\<close>

record 'a elem_type =
  nothrow_move_constructible :: bool
  copy_constructible :: bool
  can_copy :: "'a \<Rightarrow> bool"
  moved_from :: "'a \<Rightarrow> 'a"
  value_init :: 'a
  default_init :: 'a

section \<open>The standard library's algorithms on raw storage\<close>

text \<open>Placement \<^verbatim>\<open>new (p) T(x)\<close> with a constructor that does not throw.\<close>

definition construct_at :: "ptr \<Rightarrow> 'a \<Rightarrow> 'a heap \<Rightarrow> (unit, 'a) outcome" where
  "construct_at p x h =
     (case read_range h p 1 of
        None \<Rightarrow> Undefined InvalidPointer
      | Some ss \<Rightarrow>
          if list_all is_raw ss then Done () (write_range h p [Live x])
          else Undefined ConstructOverLive)"

text \<open>Placement \<^verbatim>\<open>new (p) T(x)\<close> with the copy constructor.\<close>

definition copy_construct_at ::
  "'a elem_type \<Rightarrow> ptr \<Rightarrow> 'a \<Rightarrow> 'a heap \<Rightarrow> (unit, 'a) outcome" where
  "copy_construct_at T p x h =
     (case read_range h p 1 of
        None \<Rightarrow> Undefined InvalidPointer
      | Some ss \<Rightarrow>
          if \<not> list_all is_raw ss then Undefined ConstructOverLive
          else if can_copy T x then Done () (write_range h p [Live x])
          else Thrown elem_exception h)"

text \<open>Placement \<^verbatim>\<open>new (p) T(std::move(*q))\<close>.\<close>

definition move_construct_at ::
  "'a elem_type \<Rightarrow> ptr \<Rightarrow> ptr \<Rightarrow> 'a heap \<Rightarrow> (unit, 'a) outcome" where
  "move_construct_at T p q h =
     (case read_range h q 1 of
        None \<Rightarrow> Undefined InvalidPointer
      | Some xs \<Rightarrow>
          if \<not> list_all is_live xs then Undefined ReadRaw
          else
            (case read_range h p 1 of
               None \<Rightarrow> Undefined InvalidPointer
             | Some ss \<Rightarrow>
                 if list_all is_raw ss
                 then Done () (write_range (write_range h q (map (map_slot (moved_from T)) xs)) p xs)
                 else Undefined ConstructOverLive))"

text \<open>\<^verbatim>\<open>*p = std::move(*q)\<close>: both objects are live.\<close>

definition move_assign_at ::
  "'a elem_type \<Rightarrow> ptr \<Rightarrow> ptr \<Rightarrow> 'a heap \<Rightarrow> (unit, 'a) outcome" where
  "move_assign_at T p q h =
     (case read_range h q 1 of
        None \<Rightarrow> Undefined InvalidPointer
      | Some xs \<Rightarrow>
          if \<not> list_all is_live xs then Undefined ReadRaw
          else
            (case read_range h p 1 of
               None \<Rightarrow> Undefined InvalidPointer
             | Some ss \<Rightarrow>
                 if list_all is_live ss
                 then Done () (write_range (write_range h q (map (map_slot (moved_from T)) xs)) p xs)
                 else Undefined ReadRaw))"

text \<open>\<^verbatim>\<open>*p = T(x)\<close> where the temporary is already built: a move assignment from it.\<close>

definition assign_at :: "ptr \<Rightarrow> 'a \<Rightarrow> 'a heap \<Rightarrow> (unit, 'a) outcome" where
  "assign_at p x h =
     (case read_range h p 1 of
        None \<Rightarrow> Undefined InvalidPointer
      | Some ss \<Rightarrow>
          if list_all is_live ss then Done () (write_range h p [Live x])
          else Undefined ReadRaw)"

text \<open>\<^verbatim>\<open>*p = *q\<close> with the copy assignment.\<close>

definition copy_assign_at ::
  "'a elem_type \<Rightarrow> ptr \<Rightarrow> ptr \<Rightarrow> 'a heap \<Rightarrow> (unit, 'a) outcome" where
  "copy_assign_at T p q h =
     (case read_range h q 1 of
        None \<Rightarrow> Undefined InvalidPointer
      | Some xs \<Rightarrow>
          if \<not> list_all is_live xs then Undefined ReadRaw
          else
            (case read_range h p 1 of
               None \<Rightarrow> Undefined InvalidPointer
             | Some ss \<Rightarrow>
                 if \<not> list_all is_live ss then Undefined ReadRaw
                 else if list_all (can_copy T) (live_values xs) then Done () (write_range h p xs)
                 else Thrown elem_exception h))"

text \<open>\<^verbatim>\<open>std::destroy_n(first, n)\<close> runs the destructor of \<open>n\<close> objects.\<close>

definition destroy_n :: "ptr \<Rightarrow> nat \<Rightarrow> 'a heap \<Rightarrow> (unit, 'a) outcome" where
  "destroy_n first n h =
     (case read_range h first n of
        None \<Rightarrow> Undefined InvalidPointer
      | Some xs \<Rightarrow>
          if list_all is_live xs then Done () (write_range h first (replicate n Raw))
          else Undefined DestroyRaw)"

text \<open>
  \<^verbatim>\<open>std::uninitialized_copy_n(first, n, d_first)\<close> copy-constructs \<open>n\<close> objects
  into raw storage; when a copy throws, the objects already built are destroyed and the
  exception is rethrown.
\<close>

definition uninitialized_copy_n ::
  "'a elem_type \<Rightarrow> ptr \<Rightarrow> nat \<Rightarrow> ptr \<Rightarrow> 'a heap \<Rightarrow> (unit, 'a) outcome" where
  "uninitialized_copy_n T first n d_first h =
     (case read_range h first n of
        None \<Rightarrow> Undefined InvalidPointer
      | Some xs \<Rightarrow>
          if \<not> list_all is_live xs then Undefined ReadRaw
          else
            (case read_range h d_first n of
               None \<Rightarrow> Undefined InvalidPointer
             | Some ys \<Rightarrow>
                 if \<not> list_all is_raw ys then Undefined ConstructOverLive
                 else if list_all (can_copy T) (live_values xs)
                 then Done () (write_range h d_first xs)
                 else Thrown elem_exception h))"

text \<open>\<^verbatim>\<open>std::uninitialized_move_n(first, n, d_first)\<close> move-constructs \<open>n\<close> objects.\<close>

definition uninitialized_move_n ::
  "'a elem_type \<Rightarrow> ptr \<Rightarrow> nat \<Rightarrow> ptr \<Rightarrow> 'a heap \<Rightarrow> (unit, 'a) outcome" where
  "uninitialized_move_n T first n d_first h =
     (case read_range h first n of
        None \<Rightarrow> Undefined InvalidPointer
      | Some xs \<Rightarrow>
          if \<not> list_all is_live xs then Undefined ReadRaw
          else
            (case read_range h d_first n of
               None \<Rightarrow> Undefined InvalidPointer
             | Some ys \<Rightarrow>
                 if list_all is_raw ys
                 then Done ()
                   (write_range (write_range h first (map (map_slot (moved_from T)) xs)) d_first xs)
                 else Undefined ConstructOverLive))"

definition uninitialized_value_construct_n ::
  "'a elem_type \<Rightarrow> ptr \<Rightarrow> nat \<Rightarrow> 'a heap \<Rightarrow> (unit, 'a) outcome" where
  "uninitialized_value_construct_n T first n h =
     (case read_range h first n of
        None \<Rightarrow> Undefined InvalidPointer
      | Some ys \<Rightarrow>
          if list_all is_raw ys
          then Done () (write_range h first (replicate n (Live (value_init T))))
          else Undefined ConstructOverLive)"

definition uninitialized_default_construct_n ::
  "'a elem_type \<Rightarrow> ptr \<Rightarrow> nat \<Rightarrow> 'a heap \<Rightarrow> (unit, 'a) outcome" where
  "uninitialized_default_construct_n T first n h =
     (case read_range h first n of
        None \<Rightarrow> Undefined InvalidPointer
      | Some ys \<Rightarrow>
          if list_all is_raw ys
          then Done () (write_range h first (replicate n (Live (default_init T))))
          else Undefined ConstructOverLive)"

text \<open>
  \<^verbatim>\<open>std::move(first, last, d_first)\<close> move-assigns front to back, and
  \<^verbatim>\<open>std::move_backward(first, last, d_last)\<close> back to front; both take the
  number of elements \<open>last - first\<close> here.
\<close>

fun move_n :: "'a elem_type \<Rightarrow> ptr \<Rightarrow> nat \<Rightarrow> ptr \<Rightarrow> 'a heap \<Rightarrow> (unit, 'a) outcome" where
  "move_n T first 0 d_first h = Done () h"
| "move_n T first (Suc n) d_first h =
     and_then (move_assign_at T d_first first h)
       (\<lambda>_. move_n T (ptr_add first 1) n (ptr_add d_first 1))"

fun move_backward_n ::
  "'a elem_type \<Rightarrow> ptr \<Rightarrow> nat \<Rightarrow> ptr \<Rightarrow> 'a heap \<Rightarrow> (unit, 'a) outcome" where
  "move_backward_n T first 0 d_last h = Done () h"
| "move_backward_n T first (Suc n) d_last h =
     and_then (move_assign_at T (ptr_sub d_last 1) (ptr_add first n) h)
       (\<lambda>_. move_backward_n T first n (ptr_sub d_last 1))"

definition std_move :: "'a elem_type \<Rightarrow> ptr \<Rightarrow> ptr \<Rightarrow> ptr \<Rightarrow> 'a heap \<Rightarrow> (unit, 'a) outcome" where
  "std_move T first lst d_first h =
     (case ptr_diff lst first of
        None \<Rightarrow> Undefined InvalidPointer
      | Some n \<Rightarrow> move_n T first n d_first h)"

definition std_move_backward ::
  "'a elem_type \<Rightarrow> ptr \<Rightarrow> ptr \<Rightarrow> ptr \<Rightarrow> 'a heap \<Rightarrow> (unit, 'a) outcome" where
  "std_move_backward T first lst d_last h =
     (case ptr_diff lst first of
        None \<Rightarrow> Undefined InvalidPointer
      | Some n \<Rightarrow> move_backward_n T first n d_last h)"

section \<open>The memory provider\<close>

text \<open>
  \<^verbatim>\<open>operator new\<close> hands out a fresh block of raw slots, or throws
  \<^verbatim>\<open>std::bad_alloc\<close> when the request exceeds what the provider has left;
  \<^verbatim>\<open>operator delete\<close> returns a block, does nothing on a null pointer, and is
  undefined on anything that is not the start of an allocated block.
\<close>

definition operator_new :: "nat \<Rightarrow> 'a heap \<Rightarrow> (ptr, 'a) outcome" where
  "operator_new n h =
     (if n \<le> avail h
      then Done (Ptr (length (blocks h)) 0) (alloc_block h n)
      else Thrown bad_alloc h)"

definition operator_delete :: "ptr \<Rightarrow> 'a heap \<Rightarrow> (unit, 'a) outcome" where
  "operator_delete p h =
     (case p of
        Null \<Rightarrow> Done () h
      | Wild \<Rightarrow> Undefined BadFree
      | Ptr a i \<Rightarrow>
          (case block_at h a of
             None \<Rightarrow> Undefined BadFree
           | Some b \<Rightarrow>
               if i = 0 then Done () (free_block h a (length b)) else Undefined BadFree))"

section \<open>RawMemory\<close>

record RawMemory =
  m_buffer :: ptr
  m_capacity :: nat

text \<open>The default member initialisers \<^verbatim>\<open>buffer_ = nullptr\<close> and \<^verbatim>\<open>capacity_ = 0\<close>; the fields are named \<open>m_buffer\<close> and \<open>m_capacity\<close> here.\<close>

definition RawMemory_default :: RawMemory where
  "RawMemory_default = \<lparr>m_buffer = Null, m_capacity = 0\<rparr>"

definition Allocate :: "nat \<Rightarrow> 'a heap \<Rightarrow> (ptr, 'a) outcome" where
  "Allocate n h = (if n \<noteq> 0 then operator_new n h else Done Null h)"

definition Deallocate :: "ptr \<Rightarrow> 'a heap \<Rightarrow> (unit, 'a) outcome" where
  "Deallocate buf h = operator_delete buf h"

definition RawMemory_ctor :: "nat \<Rightarrow> 'a heap \<Rightarrow> (RawMemory, 'a) outcome" where
  "RawMemory_ctor capacity h =
     and_then (Allocate capacity h) (\<lambda>p. Done \<lparr>m_buffer = p, m_capacity = capacity\<rparr>)"

definition RawMemory_dtor :: "RawMemory \<Rightarrow> 'a heap \<Rightarrow> (unit, 'a) outcome" where
  "RawMemory_dtor m h = Deallocate (m_buffer m) h"

text \<open>\<open>RawMemory_Swap (this, other)\<close> returns the two objects after the exchange.\<close>

definition RawMemory_Swap :: "RawMemory \<times> RawMemory \<Rightarrow> RawMemory \<times> RawMemory" where
  "RawMemory_Swap p =
     (case p of (this, other) \<Rightarrow>
        (this\<lparr>m_buffer := m_buffer other, m_capacity := m_capacity other\<rparr>,
         other\<lparr>m_buffer := m_buffer this, m_capacity := m_capacity this\<rparr>))"

text \<open>The move constructor swaps a default-initialised object with its argument.\<close>

definition RawMemory_move_ctor :: "RawMemory \<Rightarrow> RawMemory \<times> RawMemory" where
  "RawMemory_move_ctor other = RawMemory_Swap (RawMemory_default, other)"

definition RawMemory_move_assign :: "RawMemory \<times> RawMemory \<Rightarrow> RawMemory \<times> RawMemory" where
  "RawMemory_move_assign p = RawMemory_Swap p"

text \<open>
  \<^verbatim>\<open>operator+\<close> and \<^verbatim>\<open>operator[]\<close> guard their argument by an \<^verbatim>\<open>assert\<close>, which a
  release build compiles away: the model computes the address without the check, and an
  address outside the block is found when it is used.
\<close>

definition RawMemory_plus :: "RawMemory \<Rightarrow> nat \<Rightarrow> ptr" where
  "RawMemory_plus m offset = ptr_add (m_buffer m) offset"

definition GetAddress :: "RawMemory \<Rightarrow> ptr" where
  "GetAddress m = m_buffer m"

definition RawMemory_Capacity :: "RawMemory \<Rightarrow> nat" where
  "RawMemory_Capacity m = m_capacity m"

text \<open>\<^verbatim>\<open>operator[]\<close> of \<^verbatim>\<open>RawMemory\<close> yields a reference, here the slot's address.\<close>

definition RawMemory_index :: "RawMemory \<Rightarrow> nat \<Rightarrow> ptr" where
  "RawMemory_index m index = ptr_add (m_buffer m) index"

section \<open>Vector\<close>

record Vector =
  m_data :: RawMemory
  m_size :: nat

text \<open>An argument pack of \<^verbatim>\<open>Emplace\<close>: one value, passed as an lvalue or an rvalue.\<close>

datatype 'a arg = Lvalue 'a | Rvalue 'a

definition Vector_default :: Vector where
  "Vector_default = \<lparr>m_data = RawMemory_default, m_size = 0\<rparr>"

definition Vector_begin :: "Vector \<Rightarrow> ptr" where
  "Vector_begin v = GetAddress (m_data v)"

definition Vector_end :: "Vector \<Rightarrow> ptr" where
  "Vector_end v = RawMemory_plus (m_data v) (m_size v)"

definition Vector_cbegin :: "Vector \<Rightarrow> ptr" where
  "Vector_cbegin v = GetAddress (m_data v)"

definition Vector_cend :: "Vector \<Rightarrow> ptr" where
  "Vector_cend v = RawMemory_plus (m_data v) (m_size v)"

definition Size :: "Vector \<Rightarrow> nat" where
  "Size v = m_size v"

definition Capacity :: "Vector \<Rightarrow> nat" where
  "Capacity v = RawMemory_Capacity (m_data v)"

text \<open>Placement \<^verbatim>\<open>new (p) T(std::forward<Args>(args)...)\<close>.\<close>

definition construct_from ::
  "'a elem_type \<Rightarrow> ptr \<Rightarrow> 'a arg \<Rightarrow> 'a heap \<Rightarrow> (unit, 'a) outcome" where
  "construct_from T p args h =
     (case args of
        Lvalue x \<Rightarrow> copy_construct_at T p x h
      | Rvalue x \<Rightarrow> construct_at p x h)"

text \<open>The temporary \<^verbatim>\<open>T(std::forward<Args>(args)...)\<close>.\<close>

definition make_temporary :: "'a elem_type \<Rightarrow> 'a arg \<Rightarrow> 'a heap \<Rightarrow> ('a, 'a) outcome" where
  "make_temporary T args h =
     (case args of
        Lvalue x \<Rightarrow> if can_copy T x then Done x h else Thrown elem_exception h
      | Rvalue x \<Rightarrow> Done x h)"

definition UninitializedCopyMove ::
  "'a elem_type \<Rightarrow> ptr \<Rightarrow> nat \<Rightarrow> ptr \<Rightarrow> 'a heap \<Rightarrow> (unit, 'a) outcome" where
  "UninitializedCopyMove T from n to h =
     (if nothrow_move_constructible T \<or> \<not> copy_constructible T
      then uninitialized_move_n T from n to h
      else uninitialized_copy_n T from n to h)"

definition Vector_Swap :: "Vector \<times> Vector \<Rightarrow> Vector \<times> Vector" where
  "Vector_Swap p =
     (case p of (this, other) \<Rightarrow>
        (case RawMemory_Swap (m_data this, m_data other) of (d, od) \<Rightarrow>
           (this\<lparr>m_data := d, m_size := m_size other\<rparr>,
            other\<lparr>m_data := od, m_size := m_size this\<rparr>)))"

text \<open>The destructor's body, then the destructor of the member \<^verbatim>\<open>data_\<close>.\<close>

definition Vector_dtor :: "Vector \<Rightarrow> 'a heap \<Rightarrow> (unit, 'a) outcome" where
  "Vector_dtor v h =
     and_then (destroy_n (GetAddress (m_data v)) (m_size v) h)
       (\<lambda>_. RawMemory_dtor (m_data v))"

definition Vector_sized_ctor :: "'a elem_type \<Rightarrow> nat \<Rightarrow> 'a heap \<Rightarrow> (Vector, 'a) outcome" where
  "Vector_sized_ctor T sz h =
     and_then (RawMemory_ctor sz h) (\<lambda>d h1.
       unwind
         (and_then (uninitialized_value_construct_n T (GetAddress d) sz h1)
            (\<lambda>_. Done \<lparr>m_data = d, m_size = sz\<rparr>))
         (RawMemory_dtor d))"

definition Vector_copy_ctor :: "'a elem_type \<Rightarrow> Vector \<Rightarrow> 'a heap \<Rightarrow> (Vector, 'a) outcome" where
  "Vector_copy_ctor T other h =
     and_then (RawMemory_ctor (m_size other) h) (\<lambda>d h1.
       unwind
         (and_then
            (uninitialized_copy_n T (GetAddress (m_data other)) (m_size other) (GetAddress d) h1)
            (\<lambda>_. Done \<lparr>m_data = d, m_size = m_size other\<rparr>))
         (RawMemory_dtor d))"

text \<open>
  The move constructor swaps the default-initialised members with \<open>other\<close> and then
  calls the destructor of \<open>other\<close>. The result is the pair of the new object and \<open>other\<close>.
\<close>

definition Vector_move_ctor :: "Vector \<Rightarrow> 'a heap \<Rightarrow> (Vector \<times> Vector, 'a) outcome" where
  "Vector_move_ctor other h =
     (case Vector_Swap (Vector_default, other) of (this, other') \<Rightarrow>
        and_then (Vector_dtor other' h) (\<lambda>_. Done (this, other')))"

definition Reserve :: "'a elem_type \<Rightarrow> nat \<Rightarrow> Vector \<Rightarrow> 'a heap \<Rightarrow> (Vector, 'a) outcome" where
  "Reserve T new_capacity v h =
     (if new_capacity > RawMemory_Capacity (m_data v) then
        and_then (RawMemory_ctor new_capacity h) (\<lambda>new_data h1.
          unwind
            (and_then
               (UninitializedCopyMove T (GetAddress (m_data v)) (m_size v) (GetAddress new_data) h1)
               (\<lambda>_ h2.
            and_then
               (destroy_n (GetAddress (m_data v)) (RawMemory_Capacity (m_data v)) h2)
               (\<lambda>_ h3.
            (case RawMemory_Swap (m_data v, new_data) of (d, old_data) \<Rightarrow>
               and_then (RawMemory_dtor old_data h3) (\<lambda>_. Done (v\<lparr>m_data := d\<rparr>))))))
            (RawMemory_dtor new_data))
      else Done v h)"

definition Resize :: "'a elem_type \<Rightarrow> nat \<Rightarrow> Vector \<Rightarrow> 'a heap \<Rightarrow> (Vector, 'a) outcome" where
  "Resize T new_size v h =
     (if m_size v > new_size then
        and_then (destroy_n (RawMemory_plus (m_data v) new_size) (m_size v - new_size) h)
          (\<lambda>_. Done (v\<lparr>m_size := new_size\<rparr>))
      else if new_size > m_size v then
        and_then
          (if RawMemory_Capacity (m_data v) < new_size then Reserve T new_size v h else Done v h)
          (\<lambda>v1 h1.
        and_then
          (uninitialized_default_construct_n T
             (RawMemory_plus (m_data v1) (m_size v1)) (new_size - m_size v1) h1)
          (\<lambda>_. Done (v1\<lparr>m_size := new_size\<rparr>)))
      else Done v h)"

text \<open>\<^verbatim>\<open>PushBack(const T&)\<close>.\<close>

definition PushBack :: "'a elem_type \<Rightarrow> 'a \<Rightarrow> Vector \<Rightarrow> 'a heap \<Rightarrow> (Vector, 'a) outcome" where
  "PushBack T val v h =
     and_then
       (if m_size v = RawMemory_Capacity (m_data v) then
          and_then (RawMemory_ctor (if m_size v = 0 then 1 else 2 * m_size v) h) (\<lambda>temp h1.
            unwind
              (and_then (copy_construct_at T (RawMemory_plus temp (m_size v)) val h1) (\<lambda>_ h2.
               and_then
                 (UninitializedCopyMove T (GetAddress (m_data v)) (m_size v) (GetAddress temp) h2)
                 (\<lambda>_ h3.
               and_then (destroy_n (GetAddress (m_data v)) (m_size v) h3) (\<lambda>_ h4.
               (case RawMemory_Swap (m_data v, temp) of (d, old_data) \<Rightarrow>
                  and_then (RawMemory_dtor old_data h4) (\<lambda>_. Done d))))))
              (RawMemory_dtor temp))
        else
          and_then (copy_construct_at T (RawMemory_plus (m_data v) (m_size v)) val h)
            (\<lambda>_. Done (m_data v)))
       (\<lambda>d. Done (v\<lparr>m_data := d, m_size := m_size v + 1\<rparr>))"

text \<open>\<^verbatim>\<open>PushBack(T&&)\<close>.\<close>

definition PushBack_rvalue ::
  "'a elem_type \<Rightarrow> 'a \<Rightarrow> Vector \<Rightarrow> 'a heap \<Rightarrow> (Vector, 'a) outcome" where
  "PushBack_rvalue T val v h =
     and_then
       (if m_size v = RawMemory_Capacity (m_data v) then
          and_then (RawMemory_ctor (if m_size v = 0 then 1 else 2 * m_size v) h) (\<lambda>temp h1.
            unwind
              (and_then (construct_at (RawMemory_plus temp (m_size v)) val h1) (\<lambda>_ h2.
               and_then
                 (UninitializedCopyMove T (GetAddress (m_data v)) (m_size v) (GetAddress temp) h2)
                 (\<lambda>_ h3.
               and_then (destroy_n (GetAddress (m_data v)) (m_size v) h3) (\<lambda>_ h4.
               (case RawMemory_Swap (m_data v, temp) of (d, old_data) \<Rightarrow>
                  and_then (RawMemory_dtor old_data h4) (\<lambda>_. Done d))))))
              (RawMemory_dtor temp))
        else
          and_then (construct_at (RawMemory_plus (m_data v) (m_size v)) val h)
            (\<lambda>_. Done (m_data v)))
       (\<lambda>d. Done (v\<lparr>m_data := d, m_size := m_size v + 1\<rparr>))"

text \<open>\<^verbatim>\<open>std::destroy(first, last)\<close>.\<close>

definition std_destroy :: "ptr \<Rightarrow> ptr \<Rightarrow> 'a heap \<Rightarrow> (unit, 'a) outcome" where
  "std_destroy first lst h =
     (case ptr_diff lst first of
        None \<Rightarrow> Undefined InvalidPointer
      | Some n \<Rightarrow> destroy_n first n h)"

definition PopBack :: "Vector \<Rightarrow> 'a heap \<Rightarrow> (Vector, 'a) outcome" where
  "PopBack v h =
     and_then
       (std_destroy (ptr_sub (RawMemory_plus (m_data v) (m_size v)) 1)
          (RawMemory_plus (m_data v) (m_size v)) h)
       (\<lambda>_ h1.
          if m_size v = 0 then Undefined SizeUnderflow
          else Done (v\<lparr>m_size := m_size v - 1\<rparr>) h1)"

text \<open>The result is the returned reference (the address of the new last element) and the vector.\<close>

definition EmplaceBack ::
  "'a elem_type \<Rightarrow> 'a arg \<Rightarrow> Vector \<Rightarrow> 'a heap \<Rightarrow> (ptr \<times> Vector, 'a) outcome" where
  "EmplaceBack T args v h =
     and_then
       (if m_size v = RawMemory_Capacity (m_data v) then
          and_then (RawMemory_ctor (if m_size v = 0 then 1 else 2 * m_size v) h) (\<lambda>temp h1.
            unwind
              (and_then (construct_from T (ptr_add (GetAddress temp) (m_size v)) args h1) (\<lambda>_ h2.
               and_then
                 (UninitializedCopyMove T (GetAddress (m_data v)) (m_size v) (GetAddress temp) h2)
                 (\<lambda>_ h3.
               and_then (destroy_n (GetAddress (m_data v)) (m_size v) h3) (\<lambda>_ h4.
               (case RawMemory_Swap (m_data v, temp) of (d, old_data) \<Rightarrow>
                  and_then (RawMemory_dtor old_data h4) (\<lambda>_. Done d))))))
              (RawMemory_dtor temp))
        else
          and_then (construct_from T (RawMemory_plus (m_data v) (m_size v)) args h)
            (\<lambda>_. Done (m_data v)))
       (\<lambda>d. Done
          (ptr_sub (RawMemory_plus d (m_size v + 1)) 1, v\<lparr>m_data := d, m_size := m_size v + 1\<rparr>))"

text \<open>The result is the returned iterator and the vector.\<close>

definition Emplace ::
  "'a elem_type \<Rightarrow> ptr \<Rightarrow> 'a arg \<Rightarrow> Vector \<Rightarrow> 'a heap \<Rightarrow> (ptr \<times> Vector, 'a) outcome" where
  "Emplace T pos args v h =
     (case ptr_diff pos (Vector_cbegin v) of
        None \<Rightarrow> Undefined InvalidPointer
      | Some position \<Rightarrow>
          and_then
            (if RawMemory_Capacity (m_data v) > m_size v then
               (if position = m_size v then
                  and_then (construct_from T (ptr_add (Vector_begin v) position) args h)
                    (\<lambda>_. Done (m_data v))
                else
                  and_then
                    (move_construct_at T (Vector_end v) (ptr_sub (Vector_end v) 1) h) (\<lambda>_ h1.
                  and_then
                    (std_move_backward T (ptr_add (Vector_begin v) position)
                       (ptr_sub (Vector_end v) 1) (Vector_end v) h1) (\<lambda>_ h2.
                  and_then (make_temporary T args h2) (\<lambda>x h3.
                  and_then (assign_at (RawMemory_index (m_data v) position) x h3)
                    (\<lambda>_. Done (m_data v))))))
             else
               and_then (RawMemory_ctor (if m_size v = 0 then 1 else 2 * m_size v) h) (\<lambda>temp h1.
                 unwind
                   (and_then (construct_from T (RawMemory_plus temp position) args h1) (\<lambda>_ h2.
                    and_then
                      (UninitializedCopyMove T (Vector_begin v) position (GetAddress temp) h2)
                      (\<lambda>_ h3.
                    (case ptr_diff (Vector_cend v) pos of
                       None \<Rightarrow> Undefined InvalidPointer
                     | Some rest \<Rightarrow>
                    and_then
                      (UninitializedCopyMove T (ptr_add (Vector_begin v) position) rest
                         (ptr_add (RawMemory_plus temp position) 1) h3)
                      (\<lambda>_ h4.
                    and_then (destroy_n (GetAddress (m_data v)) (m_size v) h4) (\<lambda>_ h5.
                    (case RawMemory_Swap (m_data v, temp) of (d, old_data) \<Rightarrow>
                       and_then (RawMemory_dtor old_data h5) (\<lambda>_. Done d))))))))
                   (RawMemory_dtor temp)))
            (\<lambda>d. Done
               (ptr_add (GetAddress d) position, v\<lparr>m_data := d, m_size := m_size v + 1\<rparr>)))"

definition Insert ::
  "'a elem_type \<Rightarrow> ptr \<Rightarrow> 'a \<Rightarrow> Vector \<Rightarrow> 'a heap \<Rightarrow> (ptr \<times> Vector, 'a) outcome" where
  "Insert T pos val v h = Emplace T pos (Lvalue val) v h"

definition Insert_rvalue ::
  "'a elem_type \<Rightarrow> ptr \<Rightarrow> 'a \<Rightarrow> Vector \<Rightarrow> 'a heap \<Rightarrow> (ptr \<times> Vector, 'a) outcome" where
  "Insert_rvalue T pos val v h = Emplace T pos (Rvalue val) v h"

definition Erase ::
  "'a elem_type \<Rightarrow> ptr \<Rightarrow> Vector \<Rightarrow> 'a heap \<Rightarrow> (ptr \<times> Vector, 'a) outcome" where
  "Erase T pos v h =
     (case ptr_diff pos (Vector_cbegin v) of
        None \<Rightarrow> Undefined InvalidPointer
      | Some d \<Rightarrow>
          and_then
            (std_move T (ptr_add (Vector_begin v) (d + 1)) (Vector_end v)
               (ptr_add (Vector_begin v) d) h)
            (\<lambda>_ h1.
               if m_size v = 0 then Undefined SizeUnderflow
               else
                 (let v' = v\<lparr>m_size := m_size v - 1\<rparr> in
                  and_then (destroy_n (Vector_end v') 1 h1)
                    (\<lambda>_. Done (RawMemory_plus (m_data v') d, v')))))"

text \<open>\<^verbatim>\<open>operator[]\<close> followed by a read of the referenced element.\<close>

definition Vector_index :: "Vector \<Rightarrow> nat \<Rightarrow> 'a heap \<Rightarrow> ('a, 'a) outcome" where
  "Vector_index v index h =
     (case read_range h (RawMemory_index (m_data v) index) 1 of
        None \<Rightarrow> Undefined InvalidPointer
      | Some ss \<Rightarrow>
          (case live_values ss of
             [] \<Rightarrow> Undefined ReadRaw
           | x # _ \<Rightarrow> Done x h))"

text \<open>
  The loops \<^verbatim>\<open>for (i = 0; i < n; ++i) data_[i] = rhs.data_[i]\<close> of the copy
  assignment, from index \<open>i\<close> for \<open>k\<close> more rounds.
\<close>

fun assign_loop ::
  "'a elem_type \<Rightarrow> RawMemory \<Rightarrow> RawMemory \<Rightarrow> nat \<Rightarrow> nat \<Rightarrow> 'a heap \<Rightarrow> (unit, 'a) outcome" where
  "assign_loop T d rd i 0 h = Done () h"
| "assign_loop T d rd i (Suc k) h =
     and_then (copy_assign_at T (RawMemory_index d i) (RawMemory_index rd i) h)
       (\<lambda>_. assign_loop T d rd (Suc i) k)"

text \<open>The body of the copy assignment under its guard \<^verbatim>\<open>this != &rhs\<close>.\<close>

definition copy_assign_body ::
  "'a elem_type \<Rightarrow> Vector \<Rightarrow> Vector \<Rightarrow> 'a heap \<Rightarrow> (Vector, 'a) outcome" where
  "copy_assign_body T rhs v h =
     (if RawMemory_Capacity (m_data v) \<ge> m_size rhs then
        and_then
          (if m_size v > m_size rhs then
             and_then (assign_loop T (m_data v) (m_data rhs) 0 (m_size rhs) h)
               (\<lambda>_. destroy_n (RawMemory_plus (m_data v) (m_size rhs)) (m_size v - m_size rhs))
           else
             and_then (assign_loop T (m_data v) (m_data rhs) 0 (m_size v) h)
               (\<lambda>_. uninitialized_copy_n T (RawMemory_plus (m_data rhs) (m_size v))
                      (m_size rhs - m_size v) (RawMemory_plus (m_data v) (m_size v))))
          (\<lambda>_. Done (v\<lparr>m_size := m_size rhs\<rparr>))
      else
        and_then (Vector_copy_ctor T rhs h) (\<lambda>temp h1.
          (case Vector_Swap (v, temp) of (v', temp') \<Rightarrow>
             and_then (Vector_dtor temp' h1) (\<lambda>_. Done v'))))"

section \<open>The representation invariant and the abstract contents\<close>

text \<open>
  The invariant of the data model: \<open>size \<le> capacity\<close>, the buffer is null exactly for
  capacity 0 and otherwise the start of an allocated block of \<open>capacity\<close> slots, the slots
  \<open>[0, size)\<close> hold live elements and the slots \<open>[size, capacity)\<close> are raw.
\<close>

definition vector_inv :: "'a heap \<Rightarrow> Vector \<Rightarrow> bool" where
  "vector_inv h v =
     (m_size v \<le> m_capacity (m_data v) \<and>
      (case m_buffer (m_data v) of
         Null \<Rightarrow> m_capacity (m_data v) = 0
       | Wild \<Rightarrow> False
       | Ptr a i \<Rightarrow>
           i = 0 \<and> 0 < m_capacity (m_data v) \<and>
           (case block_at h a of
              None \<Rightarrow> False
            | Some b \<Rightarrow>
                length b = m_capacity (m_data v) \<and>
                list_all is_live (take (m_size v) b) \<and>
                list_all is_raw (drop (m_size v) b))))"

text \<open>The sequence of elements a vector holds: the values of its first \<open>size\<close> slots.\<close>

definition elements :: "'a heap \<Rightarrow> Vector \<Rightarrow> 'a list" where
  "elements h v =
     (case m_buffer (m_data v) of
        Ptr a i \<Rightarrow>
          (case block_at h a of
             None \<Rightarrow> []
           | Some b \<Rightarrow> live_values (take (m_size v) (drop i b)))
      | _ \<Rightarrow> [])"

text \<open>The value an argument pack constructs.\<close>

fun arg_value :: "'a arg \<Rightarrow> 'a" where
  "arg_value (Lvalue x) = x"
| "arg_value (Rvalue x) = x"

text \<open>An arena that owns its block (or none), as any \<^verbatim>\<open>RawMemory\<close> built by its constructors.\<close>

definition arena_ok :: "'a heap \<Rightarrow> RawMemory \<Rightarrow> bool" where
  "arena_ok h m =
     (case m_buffer m of
        Null \<Rightarrow> True
      | Wild \<Rightarrow> False
      | Ptr a i \<Rightarrow> i = 0 \<and> block_at h a \<noteq> None)"

section \<open>Several vectors: assignment, swap and runs of operations\<close>

text \<open>
  The copy and the move assignment compare the addresses of their two operands, so the
  vectors of a program are kept in a list and an object is named by its index there.
  On an exception the objects are the ones before the call.
\<close>

definition with_object ::
  "nat \<Rightarrow> (Vector \<Rightarrow> 'a heap \<Rightarrow> (Vector, 'a) outcome) \<Rightarrow> Vector list \<Rightarrow> 'a heap \<Rightarrow>
   (Vector list, 'a) outcome" where
  "with_object this f vs h =
     (if this < length vs
      then and_then (f (vs ! this) h) (\<lambda>v'. Done (vs[this := v']))
      else Undefined InvalidPointer)"

text \<open>\<^verbatim>\<open>operator=(const Vector& rhs)\<close> on the object \<open>this\<close>.\<close>

definition Vector_copy_assign ::
  "'a elem_type \<Rightarrow> nat \<Rightarrow> nat \<Rightarrow> Vector list \<Rightarrow> 'a heap \<Rightarrow> (Vector list, 'a) outcome" where
  "Vector_copy_assign T this rhs vs h =
     (if this < length vs \<and> rhs < length vs then
        (if this \<noteq> rhs
         then and_then (copy_assign_body T (vs ! rhs) (vs ! this) h) (\<lambda>v'. Done (vs[this := v']))
         else Done vs h)
      else Undefined InvalidPointer)"

definition Vector_Swap_objects ::
  "nat \<Rightarrow> nat \<Rightarrow> Vector list \<Rightarrow> 'a heap \<Rightarrow> (Vector list, 'a) outcome" where
  "Vector_Swap_objects this other vs h =
     (if this < length vs \<and> other < length vs then
        (case Vector_Swap (vs ! this, vs ! other) of (v', o') \<Rightarrow>
           Done ((vs[this := v'])[other := o']) h)
      else Undefined InvalidPointer)"

text \<open>\<^verbatim>\<open>operator=(Vector&& rhs)\<close> on the object \<open>this\<close>.\<close>

definition Vector_move_assign ::
  "nat \<Rightarrow> nat \<Rightarrow> Vector list \<Rightarrow> 'a heap \<Rightarrow> (Vector list, 'a) outcome" where
  "Vector_move_assign this rhs vs h =
     (if this < length vs \<and> rhs < length vs then
        (if this \<noteq> rhs then Vector_Swap_objects this rhs vs h else Done vs h)
      else Undefined InvalidPointer)"

datatype 'a op =
    New_default
  | New_sized nat
  | New_copy nat
  | New_move nat
  | Do_PushBack nat 'a
  | Do_PushBack_rvalue nat 'a
  | Do_PopBack nat
  | Do_EmplaceBack nat "'a arg"
  | Do_Emplace nat ptr "'a arg"
  | Do_Insert nat ptr 'a
  | Do_Insert_rvalue nat ptr 'a
  | Do_Erase nat ptr
  | Do_Resize nat nat
  | Do_Reserve nat nat
  | Do_copy_assign nat nat
  | Do_move_assign nat nat
  | Do_Swap nat nat

definition drop_iterator ::
  "(Vector \<Rightarrow> 'a heap \<Rightarrow> (ptr \<times> Vector, 'a) outcome) \<Rightarrow> Vector \<Rightarrow> 'a heap \<Rightarrow> (Vector, 'a) outcome"
  where
  "drop_iterator f v h = and_then (f v h) (\<lambda>r. Done (snd r))"

fun apply_op :: "'a elem_type \<Rightarrow> 'a op \<Rightarrow> Vector list \<Rightarrow> 'a heap \<Rightarrow> (Vector list, 'a) outcome"
  where
  "apply_op T New_default vs h = Done (vs @ [Vector_default]) h"
| "apply_op T (New_sized n) vs h =
     and_then (Vector_sized_ctor T n h) (\<lambda>v. Done (vs @ [v]))"
| "apply_op T (New_copy j) vs h =
     (if j < length vs
      then and_then (Vector_copy_ctor T (vs ! j) h) (\<lambda>v. Done (vs @ [v]))
      else Undefined InvalidPointer)"
| "apply_op T (New_move j) vs h =
     (if j < length vs
      then and_then (Vector_move_ctor (vs ! j) h) (\<lambda>r. Done (vs[j := snd r] @ [fst r]))
      else Undefined InvalidPointer)"
| "apply_op T (Do_PushBack i x) vs h = with_object i (PushBack T x) vs h"
| "apply_op T (Do_PushBack_rvalue i x) vs h = with_object i (PushBack_rvalue T x) vs h"
| "apply_op T (Do_PopBack i) vs h = with_object i PopBack vs h"
| "apply_op T (Do_EmplaceBack i args) vs h = with_object i (drop_iterator (EmplaceBack T args)) vs h"
| "apply_op T (Do_Emplace i pos args) vs h = with_object i (drop_iterator (Emplace T pos args)) vs h"
| "apply_op T (Do_Insert i pos x) vs h = with_object i (drop_iterator (Insert T pos x)) vs h"
| "apply_op T (Do_Insert_rvalue i pos x) vs h =
     with_object i (drop_iterator (Insert_rvalue T pos x)) vs h"
| "apply_op T (Do_Erase i pos) vs h = with_object i (drop_iterator (Erase T pos)) vs h"
| "apply_op T (Do_Resize i n) vs h = with_object i (Resize T n) vs h"
| "apply_op T (Do_Reserve i n) vs h = with_object i (Reserve T n) vs h"
| "apply_op T (Do_copy_assign i j) vs h = Vector_copy_assign T i j vs h"
| "apply_op T (Do_move_assign i j) vs h = Vector_move_assign i j vs h"
| "apply_op T (Do_Swap i j) vs h = Vector_Swap_objects i j vs h"



text \<open>
  A run of operations. When a call leaves by an exception and \<open>caught\<close> holds for the call
  and the objects it met, the program catches the exception and goes on, with the objects
  as they were before the call and the heap as the call left it; any other exception ends
  the run.
\<close>

fun run ::
  "('a op \<Rightarrow> Vector list \<Rightarrow> bool) \<Rightarrow> 'a elem_type \<Rightarrow> 'a op list \<Rightarrow> Vector list \<Rightarrow> 'a heap \<Rightarrow>
   (Vector list, 'a) outcome" where
  "run caught T [] vs h = Done vs h"
| "run caught T (x # xs) vs h =
     (case apply_op T x vs h of
        Done vs1 h1 \<Rightarrow> run caught T xs vs1 h1
      | Thrown e h1 \<Rightarrow> if caught x vs then run caught T xs vs h1 else Thrown e h1
      | Undefined u \<Rightarrow> Undefined u)"

section \<open>Runs of PushBack and PopBack on one vector\<close>

datatype 'a stack_op = Push 'a | Push_rvalue 'a | Pop

fun run_stack ::
  "'a elem_type \<Rightarrow> 'a stack_op list \<Rightarrow> Vector \<Rightarrow> 'a heap \<Rightarrow> (Vector, 'a) outcome" where
  "run_stack T [] v h = Done v h"
| "run_stack T (Push x # xs) v h = and_then (PushBack T x v h) (run_stack T xs)"
| "run_stack T (Push_rvalue x # xs) v h = and_then (PushBack_rvalue T x v h) (run_stack T xs)"
| "run_stack T (Pop # xs) v h = and_then (PopBack v h) (run_stack T xs)"

text \<open>
  What the calls mean on the sequence of elements: a push appends, a pop removes the
  last element. \<open>pops_allowed\<close> says that no pop meets an empty sequence.
\<close>

fun stack_contents :: "'a stack_op list \<Rightarrow> 'a list \<Rightarrow> 'a list" where
  "stack_contents [] es = es"
| "stack_contents (Push x # xs) es = stack_contents xs (es @ [x])"
| "stack_contents (Push_rvalue x # xs) es = stack_contents xs (es @ [x])"
| "stack_contents (Pop # xs) es = stack_contents xs (butlast es)"

fun pops_allowed :: "'a stack_op list \<Rightarrow> nat \<Rightarrow> bool" where
  "pops_allowed [] n = True"
| "pops_allowed (Push x # xs) n = pops_allowed xs (Suc n)"
| "pops_allowed (Push_rvalue x # xs) n = pops_allowed xs (Suc n)"
| "pops_allowed (Pop # xs) n = (0 < n \<and> pops_allowed xs (n - 1))"

fun pushes :: "'a stack_op list \<Rightarrow> nat" where
  "pushes [] = 0"
| "pushes (Pop # xs) = pushes xs"
| "pushes (_ # xs) = Suc (pushes xs)"

fun pops :: "'a stack_op list \<Rightarrow> nat" where
  "pops [] = 0"
| "pops (Pop # xs) = Suc (pops xs)"
| "pops (_ # xs) = pops xs"

section \<open>Ownership and frames\<close>

text \<open>The block a vector owns, and the heaps that differ only in that block and in new blocks.\<close>

definition own :: "Vector \<Rightarrow> addr list" where
  "own v = (case m_buffer (m_data v) of Ptr a i \<Rightarrow> [a] | _ \<Rightarrow> [])"

definition frame :: "Vector \<Rightarrow> 'a heap \<Rightarrow> Vector \<Rightarrow> 'a heap \<Rightarrow> bool" where
  "frame v h v' h' =
     (length (blocks h) \<le> length (blocks h') \<and>
      (\<forall>a<length (blocks h). a \<notin> set (own v) \<longrightarrow> block_at h' a = block_at h a) \<and>
      (\<forall>a\<in>set (own v'). a \<in> set (own v) \<or> length (blocks h) \<le> a))"

text \<open>All vectors of a program satisfy the invariant, and no two of them own the same block.\<close>

definition world_inv :: "'a heap \<Rightarrow> Vector list \<Rightarrow> bool" where
  "world_inv h vs =
     (list_all (vector_inv h) vs \<and>
      (\<forall>i<length vs. \<forall>j<length vs.
         i \<noteq> j \<longrightarrow> set (own (vs ! i)) \<inter> set (own (vs ! j)) = {}))"

text \<open>Every block that exists in the first heap is the same in the second.\<close>

definition preserved :: "'a heap \<Rightarrow> 'a heap \<Rightarrow> bool" where
  "preserved h h' =
     (length (blocks h) \<le> length (blocks h') \<and>
      (\<forall>a<length (blocks h). block_at h' a = block_at h a))"

section \<open>Concrete inputs\<close>

text \<open>
  An element type like \<^verbatim>\<open>int\<close>: copies and moves never throw and a move leaves
  the value in place. Two heaps and a vector that are used to run the operations.
\<close>

definition plain :: "nat elem_type" where
  "plain = \<lparr>nothrow_move_constructible = True, copy_constructible = True,
     can_copy = (\<lambda>_. True), moved_from = (\<lambda>x. x), value_init = 0, default_init = 0\<rparr>"

definition no_blocks :: "nat heap" where
  "no_blocks = \<lparr>blocks = [], avail = 100\<rparr>"

definition one_block :: "nat heap" where
  "one_block = \<lparr>blocks = [Some [Live 5]], avail = 100\<rparr>"

definition full_vector :: Vector where
  "full_vector = \<lparr>m_data = \<lparr>m_buffer = Ptr 0 0, m_capacity = 1\<rparr>, m_size = 1\<rparr>"

text \<open>The vector and the heap that three calls of \<^verbatim>\<open>PushBack\<close> build.\<close>

definition three_of_four :: Vector where
  "three_of_four = \<lparr>m_data = \<lparr>m_buffer = Ptr 2 0, m_capacity = 4\<rparr>, m_size = 3\<rparr>"

definition third_block :: "nat heap" where
  "third_block = \<lparr>blocks = [None, None, Some [Live 1, Live 2, Live 3, Raw]], avail = 96\<rparr>"

definition four_of_four :: Vector where
  "four_of_four = \<lparr>m_data = \<lparr>m_buffer = Ptr 2 0, m_capacity = 4\<rparr>, m_size = 4\<rparr>"

definition third_block_with_99 :: "nat heap" where
  "third_block_with_99 =
     \<lparr>blocks = [None, None, Some [Live 1, Live 99, Live 2, Live 3]], avail = 96\<rparr>"


definition two_of_two :: Vector where
  "two_of_two = \<lparr>m_data = \<lparr>m_buffer = Ptr 1 0, m_capacity = 2\<rparr>, m_size = 2\<rparr>"

definition second_block :: "nat heap" where
  "second_block = \<lparr>blocks = [None, Some [Live 1, Live 3]], avail = 98\<rparr>"

text \<open>
  An element type whose copy constructor throws on the value 13 and whose move constructor
  is not \<^verbatim>\<open>noexcept\<close>, and a heap that holds 13.
\<close>

definition picky :: "nat elem_type" where
  "picky = \<lparr>nothrow_move_constructible = False, copy_constructible = True,
     can_copy = (\<lambda>x. x \<noteq> 13), moved_from = (\<lambda>x. x), value_init = 0, default_init = 0\<rparr>"

definition unlucky_block :: "nat heap" where
  "unlucky_block = \<lparr>blocks = [None, Some [Live 1, Live 13]], avail = 98\<rparr>"

definition copied_vector :: Vector where
  "copied_vector = \<lparr>m_data = \<lparr>m_buffer = Ptr 2 0, m_capacity = 2\<rparr>, m_size = 2\<rparr>"

definition unlucky_block_copied :: "nat heap" where
  "unlucky_block_copied =
     \<lparr>blocks = [None, Some [Live 1, Live 13], Some [Live 1, Live 13]], avail = 96\<rparr>"

definition unlucky_block_after_throw :: "nat heap" where
  "unlucky_block_after_throw = \<lparr>blocks = [None, Some [Live 1, Live 13], None], avail = 98\<rparr>"







section \<open>Outcomes: basic facts\<close>

lemma and_then_Done_iff:
  "and_then m f = Done r h \<longleftrightarrow> (\<exists>r' h'. m = Done r' h' \<and> f r' h' = Done r h)"
  by (cases m) (simp_all add: and_then_def)

lemma unwind_Done_iff: "unwind m c = Done r h \<longleftrightarrow> m = Done r h"
  by (cases m) (auto simp: unwind_def split: outcome.splits)

lemma and_then_Done [simp]: "and_then (Done r h) f = f r h"
  by (simp add: and_then_def)

lemma and_then_Thrown [simp]: "and_then (Thrown e h) f = Thrown e h"
  by (simp add: and_then_def)

lemma and_then_Undefined [simp]: "and_then (Undefined u) f = Undefined u"
  by (simp add: and_then_def)

lemma unwind_Done [simp]: "unwind (Done r h) c = Done r h"
  by (simp add: unwind_def)

lemma unwind_Undefined [simp]: "unwind (Undefined u) c = Undefined u"
  by (simp add: unwind_def)

section \<open>The heap: basic facts\<close>

lemma block_at_set_block [simp]:
  "block_at (set_block h a b) a' =
     (if a' = a \<and> a < length (blocks h) then Some b else block_at h a')"
  by (auto simp: block_at_def set_block_def)

lemma block_at_alloc_block [simp]:
  "block_at (alloc_block h n) a =
     (if a = length (blocks h) then Some (replicate n Raw) else block_at h a)"
  by (auto simp: block_at_def alloc_block_def nth_append)

lemma block_at_free_block [simp]:
  "block_at (free_block h a n) a' = (if a' = a then None else block_at h a')"
  by (auto simp: block_at_def free_block_def)

lemma length_blocks_set_block [simp]: "length (blocks (set_block h a b)) = length (blocks h)"
  by (simp add: set_block_def)

lemma length_blocks_alloc_block [simp]:
  "length (blocks (alloc_block h n)) = Suc (length (blocks h))"
  by (simp add: alloc_block_def)

lemma length_blocks_free_block [simp]: "length (blocks (free_block h a n)) = length (blocks h)"
  by (simp add: free_block_def)

lemma block_at_Some_less: "block_at h a = Some b \<Longrightarrow> a < length (blocks h)"
  by (auto simp: block_at_def split: if_splits)

lemma block_at_length [simp]: "block_at h (length (blocks h)) = None"
  by (simp add: block_at_def)

lemma set_block_set_block [simp]: "set_block (set_block h a b) a b' = set_block h a b'"
  by (simp add: set_block_def)

section \<open>Slots: basic facts\<close>

lemma list_all_is_live_map_Live [simp]: "list_all is_live (map Live es)"
  by (induction es) auto

lemma list_all_is_raw_map_Live [simp]: "list_all is_raw (map Live es) \<longleftrightarrow> es = []"
  by (cases es) auto

lemma list_all_is_raw_replicate [simp]: "list_all is_raw (replicate k Raw)"
  by (induction k) auto

lemma list_all_is_live_replicate [simp]: "list_all is_live (replicate k Raw) \<longleftrightarrow> k = 0"
  by (cases k) auto

lemma live_values_map_Live [simp]: "live_values (map Live es) = es"
  by (induction es) auto

lemma live_values_replicate_Raw [simp]: "live_values (replicate k Raw) = []"
  by (induction k) auto

lemma live_values_append [simp]: "live_values (xs @ ys) = live_values xs @ live_values ys"
  by (induction xs rule: live_values.induct) auto

lemma map_slot_Live_comp [simp]: "map_slot f \<circ> Live = Live \<circ> f"
  by (rule ext) simp

lemma list_all_is_live_map_Live_comp [simp]: "list_all is_live (map (Live \<circ> f) es)"
  by (induction es) auto

lemma list_all_is_raw_map_Live_comp [simp]:
  "list_all is_raw (map (Live \<circ> f) es) \<longleftrightarrow> es = []"
  by (cases es) auto

lemma live_values_map_Live_comp [simp]: "live_values (map (Live \<circ> f) es) = map f es"
  by (induction es) auto

lemma all_live_eq: "list_all is_live xs \<Longrightarrow> map Live (live_values xs) = xs"
  by (induction xs rule: live_values.induct) auto

lemma all_raw_eq: "list_all is_raw xs \<Longrightarrow> xs = replicate (length xs) Raw"
  by (induction xs rule: live_values.induct) auto

lemma all_live_length: "list_all is_live xs \<Longrightarrow> length (live_values xs) = length xs"
  by (induction xs rule: live_values.induct) auto

section \<open>The two shapes of a vector that satisfies the invariant\<close>

lemma vector_inv_cases:
  assumes "vector_inv h v"
  obtains (null) "v = \<lparr>m_data = \<lparr>m_buffer = Null, m_capacity = 0\<rparr>, m_size = 0\<rparr>"
      "elements h v = []"
  | (block) a es k where
      "v = \<lparr>m_data = \<lparr>m_buffer = Ptr a 0, m_capacity = length es + k\<rparr>, m_size = length es\<rparr>"
      "0 < length es + k" "a < length (blocks h)"
      "block_at h a = Some (map Live es @ replicate k Raw)" "elements h v = es"
proof (cases "m_buffer (m_data v)")
  case Null
  with assms have "v = \<lparr>m_data = \<lparr>m_buffer = Null, m_capacity = 0\<rparr>, m_size = 0\<rparr>"
    by (cases v, cases "m_data v") (simp add: vector_inv_def)
  moreover from Null have "elements h v = []"
    by (simp add: elements_def)
  ultimately show ?thesis by (rule null)
next
  case Wild
  with assms show ?thesis by (simp add: vector_inv_def)
next
  case (Ptr a i)
  with assms obtain b where b: "i = 0" "block_at h a = Some b"
    "length b = m_capacity (m_data v)" "m_size v \<le> length b" "0 < length b"
    "list_all is_live (take (m_size v) b)" "list_all is_raw (drop (m_size v) b)"
    by (auto simp: vector_inv_def split: option.splits)
  define es where "es = live_values (take (m_size v) b)"
  define k where "k = length b - m_size v"
  have len: "length es = m_size v"
    using b by (simp add: es_def all_live_length)
  have "b = take (m_size v) b @ drop (m_size v) b" by simp
  also have "take (m_size v) b = map Live es"
    using b by (simp add: es_def all_live_eq)
  also have "drop (m_size v) b = replicate k Raw"
    using all_raw_eq[OF b(7)] by (simp add: k_def)
  finally have beq: "b = map Live es @ replicate k Raw" .
  have "v = \<lparr>m_data = \<lparr>m_buffer = Ptr a 0, m_capacity = length es + k\<rparr>, m_size = length es\<rparr>"
    using Ptr b len by (cases v, cases "m_data v") (simp add: k_def)
  moreover have "elements h v = es"
    using Ptr b by (simp add: elements_def es_def)
  moreover have "block_at h a = Some (map Live es @ replicate k Raw)"
    using b beq by simp
  moreover have "0 < length es + k" using b len by (simp add: k_def)
  moreover have "a < length (blocks h)" using b(2) by (rule block_at_Some_less)
  ultimately show ?thesis by (intro block [of a es k]) auto
qed

section \<open>The operations on a vector that satisfies the invariant\<close>

lemmas exec_defs = RawMemory_Capacity_def RawMemory_ctor_def Allocate_def operator_new_def
  copy_construct_at_def construct_at_def construct_from_def RawMemory_plus_def read_range_def write_range_def
  UninitializedCopyMove_def uninitialized_move_n_def uninitialized_copy_n_def GetAddress_def
  destroy_n_def RawMemory_Swap_def RawMemory_dtor_def Deallocate_def operator_delete_def
  uninitialized_value_construct_n_def uninitialized_default_construct_n_def
  std_destroy_def

lemmas spec_defs = and_then_def unwind_def vector_inv_def elements_def frame_def own_def
  preserved_def Suc_le_eq

lemma list_all_is_live_replicate_Live [simp]: "list_all is_live (replicate n (Live x))"
  by (induction n) auto

lemma list_all_is_raw_replicate_Live [simp]: "list_all is_raw (replicate n (Live x)) \<longleftrightarrow> n = 0"
  by (cases n) auto

lemma live_values_replicate_Live [simp]: "live_values (replicate n (Live x)) = replicate n x"
  by (induction n) auto

lemma PushBack_spec:
  assumes "vector_inv h v"
  shows "case PushBack T x v h of
           Done v' h' \<Rightarrow> vector_inv h' v' \<and> elements h' v' = elements h v @ [x] \<and> frame v h v' h'
         | Thrown e h' \<Rightarrow> preserved h h'
         | Undefined u \<Rightarrow> False"
  using assms
proof (cases rule: vector_inv_cases)
  case null
  then show ?thesis
    by (auto simp: PushBack_def exec_defs spec_defs split: if_splits outcome.splits)
next
  case (block a es k)
  then show ?thesis
    by (auto simp: PushBack_def exec_defs spec_defs split: if_splits outcome.splits)
qed

lemma PushBack_rvalue_spec:
  assumes "vector_inv h v"
  shows "case PushBack_rvalue T x v h of
           Done v' h' \<Rightarrow> vector_inv h' v' \<and> elements h' v' = elements h v @ [x] \<and> frame v h v' h'
         | Thrown e h' \<Rightarrow> preserved h h'
         | Undefined u \<Rightarrow> False"
  using assms
proof (cases rule: vector_inv_cases)
  case null
  then show ?thesis
    by (auto simp: PushBack_rvalue_def exec_defs spec_defs split: if_splits outcome.splits)
next
  case (block a es k)
  then show ?thesis
    by (auto simp: PushBack_rvalue_def exec_defs spec_defs split: if_splits outcome.splits)
qed


lemma PopBack_spec:
  assumes "vector_inv h v"
  shows "case PopBack v h of
           Done v' h' \<Rightarrow> 0 < m_size v \<and> v' = v\<lparr>m_size := m_size v - 1\<rparr> \<and> vector_inv h' v' \<and> elements h' v' = butlast (elements h v) \<and> frame v h v' h'
         | Thrown e h' \<Rightarrow> False
         | Undefined u \<Rightarrow> m_size v = 0"
  using assms
proof (cases rule: vector_inv_cases)
  case null
  then show ?thesis
    by (auto simp: PopBack_def exec_defs spec_defs split: if_splits outcome.splits)
next
  case (block a es k)
  then show ?thesis
    apply (cases es rule: rev_cases)
    apply (auto simp: PopBack_def exec_defs spec_defs split: if_splits outcome.splits)
    done
qed




lemma Vector_copy_ctor_spec:
  assumes "vector_inv h other"
  shows "case Vector_copy_ctor T other h of
     Done v' h' \<Rightarrow> vector_inv h' v' \<and> elements h' v' = elements h other \<and> preserved h h'
        \<and> (\<forall>a\<in>set (own v'). length (blocks h) \<le> a) \<and> m_size v' = m_size other
        \<and> Capacity v' = m_size other
   | Thrown e h' \<Rightarrow> preserved h h'
   | Undefined u \<Rightarrow> False"
  using assms
proof (cases rule: vector_inv_cases)
  case null
  then show ?thesis
    by (auto simp: Vector_copy_ctor_def Capacity_def exec_defs spec_defs split: if_splits outcome.splits)
next
  case (block a es k)
  then show ?thesis
    by (auto simp: Vector_copy_ctor_def Capacity_def exec_defs spec_defs split: if_splits outcome.splits)
qed

lemma Vector_dtor_spec:
  assumes "vector_inv h v"
  shows "\<exists>h'. Vector_dtor v h = Done () h' \<and> length (blocks h') = length (blocks h) \<and>
           (\<forall>a. a \<notin> set (own v) \<longrightarrow> block_at h' a = block_at h a)"
  using assms
proof (cases rule: vector_inv_cases)
  case null
  then show ?thesis
    by (auto simp: Vector_dtor_def exec_defs spec_defs split: if_splits outcome.splits)
next
  case (block a es k)
  then show ?thesis
    by (auto simp: Vector_dtor_def exec_defs spec_defs split: if_splits outcome.splits)
qed



lemma set_block_same: "block_at h a = Some b \<Longrightarrow> set_block h a b = h"
  by (auto simp: block_at_def set_block_def list_update_same_conv split: if_splits)

lemma move_assign_at_forward:
  assumes "block_at h a = Some (pre @ Live y # Live p # rest)"
  shows "move_assign_at T (Ptr a (length pre)) (Ptr a (Suc (length pre))) h =
           Done () (set_block h a (pre @ Live p # Live (moved_from T p) # rest))"
  using assms block_at_Some_less[OF assms]
  by (simp add: move_assign_at_def read_range_def write_range_def)

lemma move_assign_at_backward:
  assumes "block_at h a = Some (pre @ Live m # Live z # rest)"
  shows "move_assign_at T (Ptr a (Suc (length pre))) (Ptr a (length pre)) h =
           Done () (set_block h a (pre @ Live (moved_from T m) # Live m # rest))"
  using assms block_at_Some_less[OF assms]
  by (simp add: move_assign_at_def read_range_def write_range_def)

lemma move_n_shift:
  assumes "block_at h a = Some (pre @ Live y # map Live post @ rest)"
  shows "move_n T (Ptr a (Suc (length pre))) (length post) (Ptr a (length pre)) h =
           Done () (set_block h a
             (pre @ map Live post @ Live (if post = [] then y else moved_from T (last post)) # rest))"
  using assms
proof (induction post arbitrary: pre y h)
  case Nil
  then show ?case by (simp add: set_block_same)
next
  case (Cons p ps)
  have less: "a < length (blocks h)" using Cons.prems by (rule block_at_Some_less)
  let ?h1 = "set_block h a (pre @ Live p # Live (moved_from T p) # map Live ps @ rest)"
  have step: "move_assign_at T (Ptr a (length pre)) (Ptr a (Suc (length pre))) h = Done () ?h1"
    using move_assign_at_forward[of h a pre y p "map Live ps @ rest" T] Cons.prems by simp
  have blk: "block_at ?h1 a = Some ((pre @ [Live p]) @ Live (moved_from T p) # map Live ps @ rest)"
    using less by simp
  show ?case
    using Cons.IH[OF blk] step by simp
qed

lemma move_backward_n_shift:
  assumes "block_at h a = Some (pre @ map Live mid @ Live z # rest)"
  shows "move_backward_n T (Ptr a (length pre)) (length mid) (Ptr a (Suc (length pre + length mid))) h =
           Done () (set_block h a
             (pre @ Live (if mid = [] then z else moved_from T (hd mid)) # map Live mid @ rest))"
  using assms
proof (induction mid arbitrary: z rest h rule: rev_induct)
  case Nil
  then show ?case by (simp add: set_block_same)
next
  case (snoc m ms)
  have less: "a < length (blocks h)" using snoc.prems by (rule block_at_Some_less)
  let ?h1 = "set_block h a (pre @ map Live ms @ Live (moved_from T m) # Live m # rest)"
  have step: "move_assign_at T (Ptr a (Suc (length pre + length ms))) (Ptr a (length pre + length ms)) h
     = Done () ?h1"
    using move_assign_at_backward[of h a "pre @ map Live ms" m z rest T] snoc.prems by simp
  have blk: "block_at ?h1 a = Some (pre @ map Live ms @ Live (moved_from T m) # (Live m # rest))"
    using less by simp
  show ?case
    using snoc.IH[OF blk] step by (cases ms) simp_all
qed


lemmas iter_defs = Vector_begin_def Vector_end_def Vector_cbegin_def Vector_cend_def
  RawMemory_index_def std_move_def std_move_backward_def

lemma Erase_spec:
  assumes "vector_inv h v"
  shows "case Erase T pos v h of
     Done r h' \<Rightarrow>
       (\<exists>d<m_size v. pos = ptr_add (Vector_begin v) d \<and> fst r = pos \<and>
          elements h' (snd r) = take d (elements h v) @ drop (Suc d) (elements h v)) \<and>
       snd r = v\<lparr>m_size := m_size v - 1\<rparr> \<and> vector_inv h' (snd r) \<and> frame v h (snd r) h'
   | Thrown e h' \<Rightarrow> False
   | Undefined u \<Rightarrow> \<not> (\<exists>d<m_size v. pos = ptr_add (Vector_begin v) d)"
  using assms
proof (cases rule: vector_inv_cases)
  case null
  then show ?thesis
    by (cases pos) (auto simp: Erase_def iter_defs exec_defs spec_defs split: if_splits outcome.splits)
next
  case (block a es k)
  show ?thesis
  proof (cases "\<exists>i<length es. pos = Ptr a i")
    case False
    then show ?thesis using block
      by (cases pos) (auto simp: Erase_def iter_defs exec_defs spec_defs split: if_splits outcome.splits)
  next
    case True
    then obtain i where i: "i < length es" "pos = Ptr a i" by blast
    define pre where "pre = take i es"
    define post where "post = drop (Suc i) es"
    have es: "es = pre @ es ! i # post" and lpre: "length pre = i"
      and lpost: "length post = length es - Suc i"
      using i by (simp_all add: pre_def post_def id_take_nth_drop)
    have blk: "block_at h a = Some (map Live pre @ Live (es ! i) # map Live post @ replicate k Raw)"
      using block(4) es by (metis append_Cons list.simps(9) map_append append_assoc)
    let ?lm = "if post = [] then es ! i else moved_from T (last post)"
    let ?h1 = "set_block h a (map Live pre @ map Live post @ Live ?lm # replicate k Raw)"
    have mv: "move_n T (Ptr a (Suc i)) (length es - Suc i) (Ptr a i) h = Done () ?h1"
      using move_n_shift[OF blk, of T] lpre lpost by simp
    have len: "length es = Suc (length pre + length post)" using i lpre lpost by simp
    have E: "Erase T pos v h = Done (Ptr a i, v\<lparr>m_size := m_size v - 1\<rparr>)
        (set_block h a (map Live (pre @ post) @ replicate (Suc k) Raw))"
      using i mv block(1,3) length_greater_0_conv[of es]
      by (simp del: length_greater_0_conv add: Erase_def iter_defs exec_defs block_at_set_block len Let_def)
    have "elements (set_block h a (map Live (pre @ post) @ replicate (Suc k) Raw)) (v\<lparr>m_size := m_size v - 1\<rparr>)
       = pre @ post"
      using block(1,3) len by (simp add: elements_def)
    moreover have "vector_inv (set_block h a (map Live (pre @ post) @ replicate (Suc k) Raw)) (v\<lparr>m_size := m_size v - 1\<rparr>)"
      using block(1,3) len i by (simp add: vector_inv_def)
    moreover have "frame v h (v\<lparr>m_size := m_size v - 1\<rparr>) (set_block h a (map Live (pre @ post) @ replicate (Suc k) Raw))"
      using block(1,3) by (simp add: frame_def own_def)
    ultimately show ?thesis
      using E i block(1,5) by (auto simp: pre_def post_def iter_defs GetAddress_def)
  qed
qed


lemmas emplace_defs = Emplace_def make_temporary_def move_construct_at_def assign_at_def

lemma Emplace_spec_null:
  assumes "v = \<lparr>m_data = \<lparr>m_buffer = Null, m_capacity = 0\<rparr>, m_size = 0\<rparr>"
  shows "case Emplace T pos args v h of
     Done r h' \<Rightarrow>
       (\<exists>d\<le>m_size v. pos = ptr_add (Vector_begin v) d \<and> fst r = ptr_add (Vector_begin (snd r)) d \<and>
          elements h' (snd r) = take d (elements h v) @ arg_value args # drop d (elements h v)) \<and>
       m_size (snd r) = m_size v + 1 \<and> vector_inv h' (snd r) \<and> frame v h (snd r) h'
   | Thrown e h' \<Rightarrow> preserved h h'
   | Undefined u \<Rightarrow> \<not> (\<exists>d\<le>m_size v. pos = ptr_add (Vector_begin v) d)"
  using assms
  by (cases pos; cases args)
     (auto simp: emplace_defs iter_defs exec_defs spec_defs split: if_splits outcome.splits)

lemma Emplace_bad_pos:
  assumes "v = \<lparr>m_data = \<lparr>m_buffer = Ptr a 0, m_capacity = length es + k\<rparr>, m_size = length es\<rparr>"
      "0 < length es + k" "a < length (blocks h)"
      "block_at h a = Some (map Live es @ replicate k Raw)"
      "\<not> (\<exists>i\<le>length es. pos = Ptr a i)"
  shows "Emplace T pos args v h \<noteq> Done r h'"
  using assms
  by (cases pos; cases args)
     (auto simp: emplace_defs iter_defs exec_defs spec_defs take_map drop_map and_then_Done_iff unwind_Done_iff
        split: if_splits option.splits)


lemma Emplace_bad_pos_Thrown:
  assumes "v = \<lparr>m_data = \<lparr>m_buffer = Ptr a 0, m_capacity = length es + k\<rparr>, m_size = length es\<rparr>"
      "0 < length es + k" "a < length (blocks h)"
      "block_at h a = Some (map Live es @ replicate k Raw)"
      "\<not> (\<exists>i\<le>length es. pos = Ptr a i)"
      "Emplace T pos args v h = Thrown e h'"
  shows "preserved h h'"
  using assms
  by (cases pos; cases args)
     (auto simp: emplace_defs iter_defs exec_defs spec_defs take_map drop_map
        split: if_splits option.splits outcome.splits)

lemma Emplace_at_end:
  assumes "v = \<lparr>m_data = \<lparr>m_buffer = Ptr a 0, m_capacity = length es + k\<rparr>, m_size = length es\<rparr>"
      "0 < k" "a < length (blocks h)"
      "block_at h a = Some (map Live es @ replicate k Raw)"
  shows "case Emplace T (Ptr a (length es)) args v h of
     Done r h' \<Rightarrow> fst r = Ptr a (length es) \<and> snd r = v\<lparr>m_size := length es + 1\<rparr> \<and>
        h' = set_block h a (map Live (es @ [arg_value args]) @ replicate (k - 1) Raw)
   | Thrown e h' \<Rightarrow> preserved h h'
   | Undefined u \<Rightarrow> False"
  using assms
  by (cases args; cases k)
     (auto simp: emplace_defs iter_defs exec_defs spec_defs split: if_splits outcome.splits)

lemma Emplace_in_place:
  assumes v: "v = \<lparr>m_data = \<lparr>m_buffer = Ptr a 0, m_capacity = length es + k\<rparr>, m_size = length es\<rparr>"
    and k: "0 < k" and a: "a < length (blocks h)"
    and blk: "block_at h a = Some (map Live es @ replicate k Raw)"
    and i: "i < length es"
  shows "case Emplace T (Ptr a i) args v h of
     Done r h' \<Rightarrow> fst r = Ptr a i \<and> snd r = v\<lparr>m_size := length es + 1\<rparr> \<and>
        h' = set_block h a (map Live (take i es @ arg_value args # drop i es) @ replicate (k - 1) Raw)
   | Thrown e h' \<Rightarrow> True
   | Undefined u \<Rightarrow> False"
proof -
  define pre where "pre = take i es"
  define mid where "mid = drop i (butlast es)"
  define l where "l = last es"
  obtain k' where k': "k = Suc k'" using k by (cases k) auto
  have ne: "es \<noteq> []" using i by auto
  have "take i es = take i (butlast es)" using i by (simp add: take_butlast)
  then have "pre @ mid = butlast es" by (simp add: pre_def mid_def)
  then have es: "es = pre @ mid @ [l]"
    using ne by (simp add: l_def flip: append_assoc)
  have lpre: "length pre = i" using i by (simp add: pre_def)
  have lmid: "length mid = length es - Suc i" by (simp add: mid_def)
  have len: "length es = Suc (length pre + length mid)" using i lpre lmid by simp
  have drop_i: "drop i es = mid @ [l]" 
    using lpre by (subst es) simp
  let ?z = "if mid = [] then moved_from T l else moved_from T (hd mid)"
  let ?h1 = "set_block h a (map Live pre @ map Live mid @ Live (moved_from T l) # Live l # replicate k' Raw)"
  let ?h2 = "set_block h a (map Live pre @ Live ?z # map Live mid @ Live l # replicate k' Raw)"
  have blk0: "block_at h a = Some (map Live pre @ map Live mid @ Live l # Raw # replicate k' Raw)"
    using blk unfolding k' by (subst (asm) es) simp
  have s1: "move_construct_at T (Ptr a (length es)) (Ptr a (length es - 1)) h = Done () ?h1"
    using blk0 a len by (simp add: move_construct_at_def read_range_def write_range_def)
  have blk1: "block_at ?h1 a =
     Some (map Live pre @ map Live mid @ Live (moved_from T l) # (Live l # replicate k' Raw))"
    using a by simp
  have s2: "move_backward_n T (Ptr a i) (length es - Suc i) (Ptr a (length es)) ?h1 = Done () ?h2"
    using move_backward_n_shift[OF blk1, of T] lpre len by simp
  have blk2: "block_at ?h2 a = Some (map Live pre @ Live ?z # map Live mid @ Live l # replicate k' Raw)"
    using a by simp
  have s4: "assign_at (Ptr a i) x ?h2 =
      Done () (set_block h a (map Live (pre @ x # mid @ [l]) @ replicate k' Raw))" for x
    using blk2 a lpre by (simp add: assign_at_def read_range_def write_range_def)
  show ?thesis
    using s1 s2 s4 v k i len k' ne
    by (cases args)
       (auto simp: Emplace_def make_temporary_def iter_defs GetAddress_def RawMemory_plus_def
          RawMemory_Capacity_def pre_def[symmetric] drop_i split: outcome.splits)
qed

lemma Emplace_grow:
  assumes v: "v = \<lparr>m_data = \<lparr>m_buffer = Ptr a 0, m_capacity = length es\<rparr>, m_size = length es\<rparr>"
    and ne: "es \<noteq> []" and a: "a < length (blocks h)"
    and blk: "block_at h a = Some (map Live es)"
    and i: "i \<le> length es"
  shows "case Emplace T (Ptr a i) args v h of
     Done r h' \<Rightarrow> fst r = Ptr (length (blocks h)) i \<and>
        snd r = \<lparr>m_data = \<lparr>m_buffer = Ptr (length (blocks h)) 0, m_capacity = 2 * length es\<rparr>,
                  m_size = length es + 1\<rparr> \<and>
        block_at h' (length (blocks h)) =
          Some (map Live (take i es @ arg_value args # drop i es) @ replicate (length es - 1) Raw) \<and>
        length (blocks h') = Suc (length (blocks h)) \<and>
        (\<forall>a'. a' \<noteq> a \<longrightarrow> a' \<noteq> length (blocks h) \<longrightarrow> block_at h' a' = block_at h a')
   | Thrown e h' \<Rightarrow> preserved h h'
   | Undefined u \<Rightarrow> False"
proof -
  define pre where "pre = take i es"
  define post where "post = drop i es"
  have es: "es = pre @ post" by (simp add: pre_def post_def)
  have lpre: "length pre = i" using i by (simp add: pre_def)
  have rep: "replicate (2 * (i + length post)) Raw =
      replicate i Raw @ Raw # replicate (length post) (Raw :: 'a slot) @ replicate (i + length post - 1) Raw"
    using ne es lpre
    by (cases "i + length post") (auto simp flip: replicate_add replicate_Suc replicate_app_Cons_same)
  show ?thesis
    unfolding pre_def[symmetric] post_def[symmetric]
    using v ne a blk lpre unfolding es
    by (cases args)
      (auto simp: emplace_defs iter_defs exec_defs spec_defs rep split: outcome.splits)
qed

lemma vector_inv_blockI:
  assumes "block_at h a = Some (map Live xs @ replicate j Raw)" "n = length xs" "c = n + j" "0 < c"
  shows "vector_inv h \<lparr>m_data = \<lparr>m_buffer = Ptr a 0, m_capacity = c\<rparr>, m_size = n\<rparr>"
    and "elements h \<lparr>m_data = \<lparr>m_buffer = Ptr a 0, m_capacity = c\<rparr>, m_size = n\<rparr> = xs"
  using assms by (simp_all add: vector_inv_def elements_def)

lemma same_block_result:
  assumes "v = \<lparr>m_data = \<lparr>m_buffer = Ptr a 0, m_capacity = c\<rparr>, m_size = n\<rparr>"
    "a < length (blocks h)" "c = length xs + j" "0 < c"
    "h' = set_block h a (map Live xs @ replicate j Raw)" "v' = v\<lparr>m_size := length xs\<rparr>"
  shows "vector_inv h' v'" "elements h' v' = xs" "frame v h v' h'"
  using assms by (simp_all add: vector_inv_def elements_def frame_def own_def)

lemma Emplace_spec:
  assumes "vector_inv h v"
  shows "case Emplace T pos args v h of
     Done r h' \<Rightarrow>
       (\<exists>d\<le>m_size v. pos = ptr_add (Vector_begin v) d \<and> fst r = ptr_add (Vector_begin (snd r)) d \<and>
          elements h' (snd r) = take d (elements h v) @ arg_value args # drop d (elements h v)) \<and>
       m_size (snd r) = m_size v + 1 \<and> vector_inv h' (snd r) \<and> frame v h (snd r) h'
   | Thrown e h' \<Rightarrow>
       preserved h h' \<or>
       (m_size v < RawMemory_Capacity (m_data v) \<and>
        ptr_diff pos (Vector_cbegin v) \<noteq> Some (m_size v))
   | Undefined u \<Rightarrow> \<not> (\<exists>d\<le>m_size v. pos = ptr_add (Vector_begin v) d)"
  using assms
proof (cases rule: vector_inv_cases)
  case null
  from Emplace_spec_null[OF null(1), where T=T and pos=pos and args=args and h=h] show ?thesis
    by (auto split: outcome.splits)
next
  case (block a es k)
  have begin_v: "Vector_begin v = Ptr a 0" using block(1) by (simp add: iter_defs GetAddress_def)
  show ?thesis
  proof (cases "\<exists>i\<le>length es. pos = Ptr a i")
    case False
    from Emplace_bad_pos[OF block(1-4) False, where T=T and args=args]
      Emplace_bad_pos_Thrown[OF block(1-4) False, where T=T and args=args]
    show ?thesis using False block(1) begin_v
      by (cases "Emplace T pos args v h") auto
  next
    case True
    then obtain i where i: "i \<le> length es" "pos = Ptr a i" by blast
    let ?xs = "take i es @ arg_value args # drop i es"
    have lxs: "length ?xs = length es + 1" using i by simp
    consider (at_end) "0 < k" "i = length es" | (in_place) "0 < k" "i < length es"
      | (grow) "k = 0" "es \<noteq> []"
      using i block(2) by (cases "k = 0"; cases "i = length es") auto
    then show ?thesis
    proof cases
      case at_end
      show ?thesis
      proof (cases "Emplace T pos args v h")
        case (Done r h')
        with Emplace_at_end[OF block(1) at_end(1) block(3,4), where T=T and args=args] i at_end
        have r: "fst r = Ptr a i" "snd r = v\<lparr>m_size := length ?xs\<rparr>"
          "h' = set_block h a (map Live ?xs @ replicate (k - 1) Raw)"
          by auto
        have c: "length es + k = length ?xs + (k - 1)" using at_end i by simp
        from same_block_result[OF block(1,3) c _ r(3,2)] block(2)
        have "vector_inv h' (snd r)" "elements h' (snd r) = ?xs" "frame v h (snd r) h'"
          by auto
        then show ?thesis using Done r i block(1,5) begin_v
          by (auto simp: iter_defs GetAddress_def)
      next
        case (Thrown e h')
        with Emplace_at_end[OF block(1) at_end(1) block(3,4), where T=T and args=args] i at_end
        show ?thesis by simp
      next
        case (Undefined u)
        with Emplace_at_end[OF block(1) at_end(1) block(3,4), where T=T and args=args] i at_end
        show ?thesis by simp
      qed
    next
      case in_place
      show ?thesis
      proof (cases "Emplace T pos args v h")
        case (Done r h')
        with Emplace_in_place[OF block(1) in_place(1) block(3,4) in_place(2), where T=T and args=args] i
        have r: "fst r = Ptr a i" "snd r = v\<lparr>m_size := length ?xs\<rparr>"
          "h' = set_block h a (map Live ?xs @ replicate (k - 1) Raw)"
          by auto
        have c: "length es + k = length ?xs + (k - 1)" using in_place i by simp
        from same_block_result[OF block(1,3) c _ r(3,2)] block(2)
        have "vector_inv h' (snd r)" "elements h' (snd r) = ?xs" "frame v h (snd r) h'"
          by auto
        then show ?thesis using Done r i block(1,5) begin_v
          by (auto simp: iter_defs GetAddress_def)
      next
        case (Thrown e h')
        then show ?thesis using i in_place block(1)
          by (simp add: iter_defs GetAddress_def RawMemory_Capacity_def)
      next
        case (Undefined u)
        with Emplace_in_place[OF block(1) in_place(1) block(3,4) in_place(2), where T=T and args=args] i
        show ?thesis by simp
      qed
    next
      case grow
      have v0: "v = \<lparr>m_data = \<lparr>m_buffer = Ptr a 0, m_capacity = length es\<rparr>, m_size = length es\<rparr>"
        and blk0: "block_at h a = Some (map Live es)"
        using block(1,4) grow by simp_all
      show ?thesis
      proof (cases "Emplace T pos args v h")
        case (Done r h')
        with Emplace_grow[OF v0 grow(2) block(3) blk0 i(1), where T=T and args=args] i
        have r: "fst r = Ptr (length (blocks h)) i"
          "snd r = \<lparr>m_data = \<lparr>m_buffer = Ptr (length (blocks h)) 0, m_capacity = 2 * length es\<rparr>,
                  m_size = length es + 1\<rparr>"
          "block_at h' (length (blocks h)) = Some (map Live ?xs @ replicate (length es - 1) Raw)"
          "length (blocks h') = Suc (length (blocks h))"
          "\<forall>a'. a' \<noteq> a \<longrightarrow> a' \<noteq> length (blocks h) \<longrightarrow> block_at h' a' = block_at h a'"
          by auto
        have c: "2 * length es = length es + 1 + (length es - 1)" using grow by (cases es) auto
        from vector_inv_blockI[OF r(3) lxs[symmetric] c] grow r(2)
        have "vector_inv h' (snd r)" "elements h' (snd r) = ?xs" by auto
        moreover have "frame v h (snd r) h'"
          using r(2,4,5) v0 by (auto simp: frame_def own_def)
        ultimately show ?thesis using Done r i block(1,5) begin_v
          by (auto simp: iter_defs GetAddress_def)
      next
        case (Thrown e h')
        with Emplace_grow[OF v0 grow(2) block(3) blk0 i(1), where T=T and args=args] i
        show ?thesis by simp
      next
        case (Undefined u)
        with Emplace_grow[OF v0 grow(2) block(3) blk0 i(1), where T=T and args=args] i
        show ?thesis by simp
      qed
    qed
  qed
qed

lemma length_elements: "vector_inv h v \<Longrightarrow> length (elements h v) = m_size v"
  by (cases rule: vector_inv_cases) auto

lemma Vector_index_spec:
  assumes "vector_inv h v"
  shows "Vector_index v i h =
     (if i < m_size v then Done (elements h v ! i) h
      else if i < m_capacity (m_data v) then Undefined ReadRaw else Undefined InvalidPointer)"
  using assms
proof (cases rule: vector_inv_cases)
  case null
  then show ?thesis
    by (auto simp: Vector_index_def RawMemory_index_def read_range_def)
next
  case (block a es k)
  have "take 1 (drop i (map Live es)) = [Live (es ! i)]" if "i < length es"
    using that by (simp add: drop_map Cons_nth_drop_Suc[symmetric])
  moreover have "take (Suc 0) (drop (i - length es) (replicate k Raw)) = [Raw :: 'a slot]"
    if "\<not> i < length es" "i < length es + k"
    using that by (cases "k - (i - length es)") auto
  ultimately show ?thesis using block
    by (auto simp: Vector_index_def RawMemory_index_def read_range_def)
qed

lemma stack_contents_length:
  "pops_allowed ops (length es) \<Longrightarrow>
     length (stack_contents ops es) + pops ops = length es + pushes ops"
proof (induction ops es rule: stack_contents.induct)
  case (4 xs es)
  then show ?case by (cases es rule: rev_cases) auto
qed auto

lemma run_stack_spec:
  assumes "vector_inv h v" "pops_allowed ops (m_size v)"
  shows "case run_stack T ops v h of
           Done v' h' \<Rightarrow> vector_inv h' v' \<and> elements h' v' = stack_contents ops (elements h v)
         | Thrown e h' \<Rightarrow> True
         | Undefined u \<Rightarrow> False"
  using assms
proof (induction ops arbitrary: v h)
  case Nil
  then show ?case by simp
next
  case (Cons x xs)
  show ?case
  proof (cases x)
    case (Push y)
    show ?thesis
    proof (cases "PushBack T y v h")
      case (Done v1 h1)
      with PushBack_spec[OF Cons.prems(1), where T=T and x=y]
      have 1: "vector_inv h1 v1" "elements h1 v1 = elements h v @ [y]" by auto
      then have "m_size v1 = Suc (m_size v)"
        using length_elements[OF 1(1)] length_elements[OF Cons.prems(1)] by simp
      with Cons.prems(2) Push have "pops_allowed xs (m_size v1)" by simp
      from Cons.IH[OF 1(1) this] show ?thesis using Push Done 1 by (auto split: outcome.splits)
    next
      case (Thrown e h1)
      then show ?thesis using Push by simp
    next
      case (Undefined u)
      with PushBack_spec[OF Cons.prems(1), where T=T and x=y] show ?thesis by simp
    qed
  next
    case (Push_rvalue y)
    show ?thesis
    proof (cases "PushBack_rvalue T y v h")
      case (Done v1 h1)
      with PushBack_rvalue_spec[OF Cons.prems(1), where T=T and x=y]
      have 1: "vector_inv h1 v1" "elements h1 v1 = elements h v @ [y]" by auto
      then have "m_size v1 = Suc (m_size v)"
        using length_elements[OF 1(1)] length_elements[OF Cons.prems(1)] by simp
      with Cons.prems(2) Push_rvalue have "pops_allowed xs (m_size v1)" by simp
      from Cons.IH[OF 1(1) this] show ?thesis using Push_rvalue Done 1 by (auto split: outcome.splits)
    next
      case (Thrown e h1)
      then show ?thesis using Push_rvalue by simp
    next
      case (Undefined u)
      with PushBack_rvalue_spec[OF Cons.prems(1), where T=T and x=y] show ?thesis by simp
    qed
  next
    case Pop
    show ?thesis
    proof (cases "PopBack v h")
      case (Done v1 h1)
      with PopBack_spec[OF Cons.prems(1)]
      have 1: "vector_inv h1 v1" "elements h1 v1 = butlast (elements h v)"
        "v1 = v\<lparr>m_size := m_size v - 1\<rparr>" by auto
      with Cons.prems(2) Pop have "pops_allowed xs (m_size v1)" by simp
      from Cons.IH[OF 1(1) this] show ?thesis using Pop Done 1 by (auto split: outcome.splits)
    next
      case (Thrown e h1)
      then show ?thesis using Pop by simp
    next
      case (Undefined u)
      with PopBack_spec[OF Cons.prems(1)] Cons.prems(2) Pop show ?thesis by simp
    qed
  qed
qed

lemma ptr_add_begin_inj:
  assumes "vector_inv h v" "d \<le> m_size v" "d' \<le> m_size v"
    "ptr_add (Vector_begin v) d = ptr_add (Vector_begin v) d'"
  shows "d = d'"
  using assms(1)
proof (cases rule: vector_inv_cases)
  case null
  then show ?thesis using assms(2,3) by simp
next
  case (block a es k)
  then show ?thesis using assms(4) by (simp add: iter_defs GetAddress_def)
qed



lemma inv_elements_cong:
  assumes "\<forall>a\<in>set (own w). block_at h' a = block_at h a"
  shows "vector_inv h' w = vector_inv h w" "elements h' w = elements h w"
  using assms by (auto simp: vector_inv_def elements_def own_def split: ptr.splits)

lemma own_less: "vector_inv h w \<Longrightarrow> a \<in> set (own w) \<Longrightarrow> a < length (blocks h)"
  by (auto simp: vector_inv_def own_def block_at_def split: ptr.splits option.splits if_splits)

lemma preserved_inv:
  assumes "preserved h h'" "vector_inv h w"
  shows "vector_inv h' w" "elements h' w = elements h w"
proof -
  have "\<forall>a\<in>set (own w). block_at h' a = block_at h a"
    using assms own_less[OF assms(2)] by (auto simp: preserved_def)
  from inv_elements_cong[OF this] assms(2) show "vector_inv h' w" "elements h' w = elements h w"
    by simp_all
qed


lemma Vector_Swap_eq: "Vector_Swap (a, b) = (b, a)"
  by (cases a; cases b; cases "m_data a"; cases "m_data b")
     (simp add: Vector_Swap_def RawMemory_Swap_def)

lemma copy_assign_body_realloc:
  assumes v: "vector_inv h v" and rhs: "vector_inv h rhs"
    and disj: "set (own v) \<inter> set (own rhs) = {}" and small: "Capacity v < m_size rhs"
  shows "case copy_assign_body T rhs v h of
           Done v' h' \<Rightarrow> vector_inv h' v' \<and> elements h' v' = elements h rhs \<and>
              m_size v' = m_size rhs \<and>
              vector_inv h' rhs \<and> elements h' rhs = elements h rhs \<and> frame v h v' h'
         | Thrown e h' \<Rightarrow> preserved h h'
         | Undefined u \<Rightarrow> False"
proof (cases "Vector_copy_ctor T rhs h")
  case (Done temp h1)
  with Vector_copy_ctor_spec[OF rhs, of T]
  have t: "vector_inv h1 temp" "elements h1 temp = elements h rhs" "preserved h h1"
    "\<forall>a\<in>set (own temp). length (blocks h) \<le> a" "m_size temp = m_size rhs"
    by auto
  have v1: "vector_inv h1 v" using preserved_inv[OF t(3) v] by simp
  from Vector_dtor_spec[OF v1] obtain h2 where
    h2: "Vector_dtor v h1 = Done () h2" "length (blocks h2) = length (blocks h1)"
      "\<forall>a. a \<notin> set (own v) \<longrightarrow> block_at h2 a = block_at h1 a"
    by blast
  have run: "copy_assign_body T rhs v h = Done temp h2"
    using small Done h2(1)
    by (simp add: copy_assign_body_def Capacity_def Vector_Swap_eq)
  have fresh: "set (own temp) \<inter> set (own v) = {}"
    using t(4) own_less[OF v] by fastforce
  have "\<forall>a\<in>set (own temp). block_at h2 a = block_at h1 a" using fresh h2(3) by auto
  from inv_elements_cong[OF this] t have 1: "vector_inv h2 temp" "elements h2 temp = elements h rhs"
    by simp_all
  have rhs1: "vector_inv h1 rhs" "elements h1 rhs = elements h rhs"
    using preserved_inv[OF t(3) rhs] by simp_all
  have "\<forall>a\<in>set (own rhs). block_at h2 a = block_at h1 a" using disj h2(3) by auto
  from inv_elements_cong[OF this] rhs1 have 2: "vector_inv h2 rhs" "elements h2 rhs = elements h rhs"
    by simp_all
  have "frame v h temp h2"
    using t(3,4) h2(2,3) by (auto simp: frame_def preserved_def)
  then show ?thesis using run 1 2 t(5) by simp
next
  case (Thrown e h1)
  with Vector_copy_ctor_spec[OF rhs, of T] have "preserved h h1" by simp
  moreover have "copy_assign_body T rhs v h = Thrown e h1"
    using small Thrown by (simp add: copy_assign_body_def Capacity_def)
  ultimately show ?thesis by simp
next
  case (Undefined u)
  with Vector_copy_ctor_spec[OF rhs, of T] show ?thesis by simp
qed






section \<open>Several vectors: the invariant is kept\<close>

lemma world_inv_nth: "world_inv h vs \<Longrightarrow> i < length vs \<Longrightarrow> vector_inv h (vs ! i)"
  by (simp add: world_inv_def list_all_length)

lemma world_inv_disj:
  "world_inv h vs \<Longrightarrow> i < length vs \<Longrightarrow> j < length vs \<Longrightarrow> i \<noteq> j \<Longrightarrow>
     set (own (vs ! i)) \<inter> set (own (vs ! j)) = {}"
  by (simp add: world_inv_def)















section \<open>RawMemory: what a move leaves behind\<close>

lemma RawMemory_ctor_capacity: "RawMemory_ctor c h = Done m h' \<Longrightarrow> m_capacity m = c"
  by (auto simp: RawMemory_ctor_def and_then_Done_iff)

text \<open>
  Claim C2, as stated, fails for the move assignment: it swaps, so a source that is
  assigned to a non-empty arena ends up with that arena's buffer and capacity, not empty.
\<close>

theorem RawMemory_move_assign_counterexample:
  "snd (RawMemory_move_assign
          (\<lparr>m_buffer = Ptr 0 0, m_capacity = 3\<rparr>, \<lparr>m_buffer = Ptr 1 0, m_capacity = 5\<rparr>))
     \<noteq> RawMemory_default"
  by (simp add: RawMemory_move_assign_def RawMemory_Swap_def RawMemory_default_def)

text \<open>
  Claim C2, amended. Move construction leaves the source arena empty (null buffer,
  capacity 0), and destroying an empty arena frees nothing. Move assignment exchanges the
  two arenas: the source is left with the buffer and the capacity the destination had. When
  the two arenas owned their blocks (or none) and not the same one, destroying the source
  and then the destination after the assignment frees every block once: no double free.
\<close>

theorem RawMemory_move_transfers:
  "RawMemory_move_ctor other = (other, RawMemory_default) \<and>
   RawMemory_dtor RawMemory_default h = Done () h \<and>
   RawMemory_move_assign (this, rhs) = (rhs, this) \<and>
   (arena_ok h this \<longrightarrow> arena_ok h rhs \<longrightarrow>
    (m_buffer this = m_buffer rhs \<longrightarrow> m_buffer this = Null) \<longrightarrow>
    (\<exists>h'. and_then (RawMemory_dtor (snd (RawMemory_move_assign (this, rhs))) h)
            (\<lambda>_. RawMemory_dtor (fst (RawMemory_move_assign (this, rhs)))) = Done () h'))"
proof (intro conjI impI)
  show "RawMemory_move_ctor other = (other, RawMemory_default)"
    by (simp add: RawMemory_move_ctor_def RawMemory_Swap_def RawMemory_default_def)
  show "RawMemory_dtor RawMemory_default h = Done () h"
    by (simp add: RawMemory_dtor_def Deallocate_def operator_delete_def RawMemory_default_def)
  show "RawMemory_move_assign (this, rhs) = (rhs, this)"
    by (simp add: RawMemory_move_assign_def RawMemory_Swap_def)
next
  assume "arena_ok h this" "arena_ok h rhs" "m_buffer this = m_buffer rhs \<longrightarrow> m_buffer this = Null"
  then show "\<exists>h'. and_then (RawMemory_dtor (snd (RawMemory_move_assign (this, rhs))) h)
            (\<lambda>_. RawMemory_dtor (fst (RawMemory_move_assign (this, rhs)))) = Done () h'"
    by (auto simp: RawMemory_move_assign_def RawMemory_Swap_def arena_ok_def RawMemory_dtor_def
        Deallocate_def operator_delete_def split: ptr.splits)
qed

theorem RawMemory_move_transfers_witness:
  "arena_ok \<lparr>blocks = [Some [Raw, Raw, Raw], Some [Raw :: nat slot]], avail = 0\<rparr>
     \<lparr>m_buffer = Ptr 0 0, m_capacity = 3\<rparr> \<and>
   arena_ok \<lparr>blocks = [Some [Raw, Raw, Raw], Some [Raw :: nat slot]], avail = 0\<rparr>
     \<lparr>m_buffer = Ptr 1 0, m_capacity = 1\<rparr> \<and>
   (\<exists>h'. and_then
      (RawMemory_dtor
         (snd (RawMemory_move_assign
            (\<lparr>m_buffer = Ptr 0 0, m_capacity = 3\<rparr>, \<lparr>m_buffer = Ptr 1 0, m_capacity = 1\<rparr>)))
         \<lparr>blocks = [Some [Raw, Raw, Raw], Some [Raw :: nat slot]], avail = 0\<rparr>)
      (\<lambda>_. RawMemory_dtor
         (fst (RawMemory_move_assign
            (\<lparr>m_buffer = Ptr 0 0, m_capacity = 3\<rparr>, \<lparr>m_buffer = Ptr 1 0, m_capacity = 1\<rparr>))))
      = Done () h')"
proof -
  let ?h = "\<lparr>blocks = [Some [Raw, Raw, Raw], Some [Raw :: nat slot]], avail = 0\<rparr>"
  let ?dst = "\<lparr>m_buffer = Ptr 0 0, m_capacity = 3\<rparr>"
  let ?src = "\<lparr>m_buffer = Ptr 1 0, m_capacity = 1\<rparr>"
  have 1: "arena_ok ?h ?dst" by (simp add: arena_ok_def block_at_def)
  have 2: "arena_ok ?h ?src" by (simp add: arena_ok_def block_at_def)
  have 3: "m_buffer ?dst = m_buffer ?src \<longrightarrow> m_buffer ?dst = Null" by simp
  from RawMemory_move_transfers [of ?src ?h ?dst ?src] 1 2 3 show ?thesis by blast
qed

section \<open>Vector: move construction\<close>


section \<open>Reserve on a vector with spare capacity\<close>

text \<open>
  Claim C1 asks that \<^verbatim>\<open>Reserve\<close> destroys only the \<open>n\<close> live slots of the old
  arena. The source calls \<^verbatim>\<open>std::destroy_n(data_.GetAddress(), data_.Capacity())\<close>:
  it runs the destructor on all \<open>capacity\<close> slots. The vector below is the one three calls of
  \<^verbatim>\<open>PushBack\<close> build from the empty vector (size 3, capacity 4); on it
  \<^verbatim>\<open>Reserve(5)\<close> destroys the raw fourth slot.
\<close>

theorem Reserve_failing_input:
  "and_then (and_then (PushBack plain 1 Vector_default no_blocks) (PushBack plain 2))
     (PushBack plain 3) =
     Done \<lparr>m_data = \<lparr>m_buffer = Ptr 2 0, m_capacity = 4\<rparr>, m_size = 3\<rparr>
       \<lparr>blocks = [None, None, Some [Live 1, Live 2, Live 3, Raw]], avail = 96\<rparr> \<and>
   Reserve plain 5 \<lparr>m_data = \<lparr>m_buffer = Ptr 2 0, m_capacity = 4\<rparr>, m_size = 3\<rparr>
     \<lparr>blocks = [None, None, Some [Live 1, Live 2, Live 3, Raw]], avail = 96\<rparr> =
     Undefined DestroyRaw"
  by code_simp

section \<open>The growth policy\<close>

text \<open>
  Claim C3. On a vector that satisfies the invariant and whose size equals its capacity,
  every growing operation that returns (\<^verbatim>\<open>PushBack\<close> of an lvalue or an
  rvalue, \<^verbatim>\<open>EmplaceBack\<close>, \<^verbatim>\<open>Emplace\<close>, \<^verbatim>\<open>Insert\<close>) leaves the
  vector with capacity \<open>max 1 (2 * capacity)\<close>: 1 from capacity 0, otherwise the double.
\<close>

theorem growth_doubles_capacity:
  assumes "vector_inv h v" "m_size v = Capacity v"
  shows "(PushBack T x v h = Done v1 h1 \<longrightarrow> Capacity v1 = max 1 (2 * Capacity v)) \<and>
         (PushBack_rvalue T x v h = Done v2 h2 \<longrightarrow> Capacity v2 = max 1 (2 * Capacity v)) \<and>
         (EmplaceBack T args v h = Done (r3, v3) h3 \<longrightarrow> Capacity v3 = max 1 (2 * Capacity v)) \<and>
         (Emplace T pos args v h = Done (r4, v4) h4 \<longrightarrow> Capacity v4 = max 1 (2 * Capacity v)) \<and>
         (Insert T pos x v h = Done (r5, v5) h5 \<longrightarrow> Capacity v5 = max 1 (2 * Capacity v)) \<and>
         (Insert_rvalue T pos x v h = Done (r6, v6) h6 \<longrightarrow> Capacity v6 = max 1 (2 * Capacity v))"
proof -
  have E: "Capacity v' = max 1 (2 * Capacity v)"
    if "Emplace T pos a v h = Done (r, v') h'" for a r v' h'
    using that assms
    by (auto simp: Emplace_def Capacity_def RawMemory_Capacity_def and_then_Done_iff
        unwind_Done_iff RawMemory_Swap_def vector_inv_def
        split: option.splits if_splits dest!: RawMemory_ctor_capacity)
  have P: "PushBack T x v h = Done v1 h1 \<longrightarrow> Capacity v1 = max 1 (2 * Capacity v)"
    using assms
    by (auto simp: PushBack_def Capacity_def RawMemory_Capacity_def and_then_Done_iff
        unwind_Done_iff RawMemory_Swap_def
        split: option.splits if_splits dest!: RawMemory_ctor_capacity)
  have P2: "PushBack_rvalue T x v h = Done v2 h2 \<longrightarrow> Capacity v2 = max 1 (2 * Capacity v)"
    using assms
    by (auto simp: PushBack_rvalue_def Capacity_def RawMemory_Capacity_def and_then_Done_iff
        unwind_Done_iff RawMemory_Swap_def
        split: option.splits if_splits dest!: RawMemory_ctor_capacity)
  have EB: "EmplaceBack T args v h = Done (r3, v3) h3 \<longrightarrow> Capacity v3 = max 1 (2 * Capacity v)"
    using assms
    by (auto simp: EmplaceBack_def Capacity_def RawMemory_Capacity_def and_then_Done_iff
        unwind_Done_iff RawMemory_Swap_def
        split: option.splits if_splits dest!: RawMemory_ctor_capacity)
  show ?thesis using E P P2 EB by (simp add: Insert_def Insert_rvalue_def)
qed

theorem growth_doubles_capacity_witness:
  "vector_inv one_block full_vector \<and> m_size full_vector = Capacity full_vector \<and>
   PushBack plain 7 full_vector one_block =
     Done \<lparr>m_data = \<lparr>m_buffer = Ptr 1 0, m_capacity = 2\<rparr>, m_size = 2\<rparr>
       \<lparr>blocks = [None, Some [Live 5, Live 7]], avail = 99\<rparr> \<and>
   PushBack_rvalue plain 7 full_vector one_block =
     Done \<lparr>m_data = \<lparr>m_buffer = Ptr 1 0, m_capacity = 2\<rparr>, m_size = 2\<rparr>
       \<lparr>blocks = [None, Some [Live 5, Live 7]], avail = 99\<rparr> \<and>
   EmplaceBack plain (Rvalue 7) full_vector one_block =
     Done (Ptr 1 1, \<lparr>m_data = \<lparr>m_buffer = Ptr 1 0, m_capacity = 2\<rparr>, m_size = 2\<rparr>)
       \<lparr>blocks = [None, Some [Live 5, Live 7]], avail = 99\<rparr> \<and>
   Emplace plain (Ptr 0 0) (Rvalue 7) full_vector one_block =
     Done (Ptr 1 0, \<lparr>m_data = \<lparr>m_buffer = Ptr 1 0, m_capacity = 2\<rparr>, m_size = 2\<rparr>)
       \<lparr>blocks = [None, Some [Live 7, Live 5]], avail = 99\<rparr> \<and>
   Insert plain (Ptr 0 0) 7 full_vector one_block =
     Done (Ptr 1 0, \<lparr>m_data = \<lparr>m_buffer = Ptr 1 0, m_capacity = 2\<rparr>, m_size = 2\<rparr>)
       \<lparr>blocks = [None, Some [Live 7, Live 5]], avail = 99\<rparr> \<and>
   Insert_rvalue plain (Ptr 0 0) 7 full_vector one_block =
     Done (Ptr 1 0, \<lparr>m_data = \<lparr>m_buffer = Ptr 1 0, m_capacity = 2\<rparr>, m_size = 2\<rparr>)
       \<lparr>blocks = [None, Some [Live 7, Live 5]], avail = 99\<rparr> \<and>
   Capacity \<lparr>m_data = \<lparr>m_buffer = Ptr 1 0, m_capacity = 2\<rparr>, m_size = 2\<rparr> =
     max 1 (2 * Capacity full_vector)"
proof -
  have inv: "vector_inv one_block full_vector" by code_simp
  have full: "m_size full_vector = Capacity full_vector" by code_simp
  have run: "PushBack plain 7 full_vector one_block =
     Done \<lparr>m_data = \<lparr>m_buffer = Ptr 1 0, m_capacity = 2\<rparr>, m_size = 2\<rparr>
       \<lparr>blocks = [None, Some [Live 5, Live 7]], avail = 99\<rparr>"
    "PushBack_rvalue plain 7 full_vector one_block =
     Done \<lparr>m_data = \<lparr>m_buffer = Ptr 1 0, m_capacity = 2\<rparr>, m_size = 2\<rparr>
       \<lparr>blocks = [None, Some [Live 5, Live 7]], avail = 99\<rparr>"
    "EmplaceBack plain (Rvalue 7) full_vector one_block =
     Done (Ptr 1 1, \<lparr>m_data = \<lparr>m_buffer = Ptr 1 0, m_capacity = 2\<rparr>, m_size = 2\<rparr>)
       \<lparr>blocks = [None, Some [Live 5, Live 7]], avail = 99\<rparr>"
    "Emplace plain (Ptr 0 0) (Rvalue 7) full_vector one_block =
     Done (Ptr 1 0, \<lparr>m_data = \<lparr>m_buffer = Ptr 1 0, m_capacity = 2\<rparr>, m_size = 2\<rparr>)
       \<lparr>blocks = [None, Some [Live 7, Live 5]], avail = 99\<rparr>"
    "Insert plain (Ptr 0 0) 7 full_vector one_block =
     Done (Ptr 1 0, \<lparr>m_data = \<lparr>m_buffer = Ptr 1 0, m_capacity = 2\<rparr>, m_size = 2\<rparr>)
       \<lparr>blocks = [None, Some [Live 7, Live 5]], avail = 99\<rparr>"
    "Insert_rvalue plain (Ptr 0 0) 7 full_vector one_block =
     Done (Ptr 1 0, \<lparr>m_data = \<lparr>m_buffer = Ptr 1 0, m_capacity = 2\<rparr>, m_size = 2\<rparr>)
       \<lparr>blocks = [None, Some [Live 7, Live 5]], avail = 99\<rparr>"
    by code_simp+
  from growth_doubles_capacity [OF inv full, of plain 7 _ _ _ _ "Rvalue 7"] run(1)
  have "Capacity \<lparr>m_data = \<lparr>m_buffer = Ptr 1 0, m_capacity = 2\<rparr>, m_size = 2\<rparr> =
     max 1 (2 * Capacity full_vector)"
    by blast
  with inv full run show ?thesis by blast
qed

section \<open>Self-assignment\<close>

text \<open>
  Claim C9. Copy-assigning and move-assigning an object to itself return normally and
  leave every object and the whole heap as they were: size, capacity and all elements of
  the vector are the ones before the call.
\<close>

theorem self_assignment_unchanged:
  "this < length vs \<Longrightarrow>
     Vector_copy_assign T this this vs h = Done vs h \<and>
     Vector_move_assign this this vs h = Done vs h"
  by (simp add: Vector_copy_assign_def Vector_move_assign_def)

theorem self_assignment_unchanged_witness:
  "(0::nat) < length [full_vector] \<and>
   Vector_copy_assign plain 0 0 [full_vector] one_block = Done [full_vector] one_block \<and>
   Vector_move_assign 0 0 [full_vector] one_block = Done [full_vector] one_block"
proof -
  have len: "(0::nat) < length [full_vector]" by simp
  from self_assignment_unchanged [OF len, of plain one_block] len show ?thesis by blast
qed

section \<open>Insert followed by Erase\<close>

text \<open>
  Claim C5. On a vector that satisfies the invariant and for every position \<open>d\<close> in
  \<open>[0, size]\<close>, \<^verbatim>\<open>Insert\<close> at \<open>begin() + d\<close> has no undefined behaviour, and when
  it returns (for an lvalue or an rvalue argument), \<^verbatim>\<open>Erase\<close> at \<open>begin() + d\<close>
  of the resulting vector returns and leaves a vector of the original size that holds the
  original elements, index by index.
\<close>

theorem Insert_then_Erase_restores:
  assumes "vector_inv h v" "d \<le> Size v"
  shows "(\<forall>u. Insert T (ptr_add (Vector_begin v) d) x v h \<noteq> Undefined u) \<and>
         (Insert T (ptr_add (Vector_begin v) d) x v h = Done (r1, v1) h1 \<longrightarrow>
           (\<exists>r2 v2 h2. Erase T (ptr_add (Vector_begin v1) d) v1 h1 = Done (r2, v2) h2 \<and>
              Size v2 = Size v \<and> elements h2 v2 = elements h v)) \<and>
         (Insert_rvalue T (ptr_add (Vector_begin v) d) x v h = Done (r1', v1') h1' \<longrightarrow>
           (\<exists>r2 v2 h2. Erase T (ptr_add (Vector_begin v1') d) v1' h1' = Done (r2, v2) h2 \<and>
              Size v2 = Size v \<and> elements h2 v2 = elements h v))"
proof -
  have main: "\<exists>r2 v2 h2. Erase T (ptr_add (Vector_begin v1) d) v1 h1 = Done (r2, v2) h2 \<and>
              Size v2 = Size v \<and> elements h2 v2 = elements h v"
    if ins: "Emplace T (ptr_add (Vector_begin v) d) args v h = Done (r1, v1) h1" for args r1 v1 h1
  proof -
    from Emplace_spec[OF assms(1), where T=T and args=args and pos="ptr_add (Vector_begin v) d"] ins
    obtain d' where d': "d' \<le> m_size v" "ptr_add (Vector_begin v) d = ptr_add (Vector_begin v) d'"
      "elements h1 v1 = take d' (elements h v) @ arg_value args # drop d' (elements h v)"
      and 1: "m_size v1 = m_size v + 1" "vector_inv h1 v1"
      by auto
    have "d' = d" using ptr_add_begin_inj[OF assms(1) _ d'(1) d'(2)] assms(2)
      by (simp add: Size_def)
    have len: "length (elements h v) = m_size v" using assms(1) by (rule length_elements)
    have dlt: "d < m_size v1" using assms(2) 1(1) by (simp add: Size_def)
    then have ex: "\<exists>d<m_size v1. ptr_add (Vector_begin v1) d = ptr_add (Vector_begin v1) d" by blast
    show ?thesis
    proof (cases "Erase T (ptr_add (Vector_begin v1) d) v1 h1")
      case (Done r h2)
      with Erase_spec[OF 1(2), where T=T and pos="ptr_add (Vector_begin v1) d"]
      obtain d2 where d2: "d2 < m_size v1" "ptr_add (Vector_begin v1) d = ptr_add (Vector_begin v1) d2"
        "elements h2 (snd r) = take d2 (elements h1 v1) @ drop (Suc d2) (elements h1 v1)"
        and 2: "snd r = v1\<lparr>m_size := m_size v1 - 1\<rparr>"
        by auto
      have "d2 = d" using ptr_add_begin_inj[OF 1(2) _ _ d2(2)] d2(1) dlt
        by simp
      have "elements h2 (snd r) = elements h v"
        using d2(3) d'(3) \<open>d' = d\<close> \<open>d2 = d\<close> assms(2) len by (simp add: Size_def)
      moreover have "Size (snd r) = Size v" using 2 1(1) by (simp add: Size_def)
      ultimately show ?thesis using Done by (cases r) auto
    next
      case (Thrown e h2)
      with Erase_spec[OF 1(2), where T=T and pos="ptr_add (Vector_begin v1) d"] show ?thesis by simp
    next
      case (Undefined u)
      with Erase_spec[OF 1(2), where T=T and pos="ptr_add (Vector_begin v1) d"] dlt
      show ?thesis by auto
    qed
  qed
  have "Emplace T (ptr_add (Vector_begin v) d) (Lvalue x) v h \<noteq> Undefined u" for u
    using Emplace_spec[OF assms(1), where T=T and args="Lvalue x"
        and pos="ptr_add (Vector_begin v) d"] assms(2)
    by (auto simp: Size_def split: outcome.splits)
  then show ?thesis using main by (simp add: Insert_def Insert_rvalue_def)
qed


theorem Insert_then_Erase_restores_witness:
  "vector_inv third_block three_of_four \<and> (1::nat) \<le> Size three_of_four \<and>
   Insert plain (ptr_add (Vector_begin three_of_four) 1) 99 three_of_four third_block =
     Done (Ptr 2 1, four_of_four) third_block_with_99 \<and>
   Insert_rvalue plain (ptr_add (Vector_begin three_of_four) 1) 99 three_of_four third_block =
     Done (Ptr 2 1, four_of_four) third_block_with_99 \<and>
   (\<exists>r2 v2 h2.
      Erase plain (ptr_add (Vector_begin four_of_four) 1) four_of_four third_block_with_99 =
        Done (r2, v2) h2 \<and>
      Size v2 = Size three_of_four \<and> elements h2 v2 = elements third_block three_of_four) \<and>
   elements third_block three_of_four = [1, 2, 3]"
proof -
  have inv: "vector_inv third_block three_of_four" by code_simp
  have d: "(1::nat) \<le> Size three_of_four" by code_simp
  have ins: "Insert plain (ptr_add (Vector_begin three_of_four) 1) 99 three_of_four third_block =
     Done (Ptr 2 1, four_of_four) third_block_with_99"
    "Insert_rvalue plain (ptr_add (Vector_begin three_of_four) 1) 99 three_of_four third_block =
     Done (Ptr 2 1, four_of_four) third_block_with_99"
    by code_simp+
  have es: "elements third_block three_of_four = [1, 2, 3]" by code_simp
  from Insert_then_Erase_restores [OF inv d, of plain 99 "Ptr 2 1" four_of_four
      third_block_with_99] ins(1)
  have "\<exists>r2 v2 h2.
      Erase plain (ptr_add (Vector_begin four_of_four) 1) four_of_four third_block_with_99 =
        Done (r2, v2) h2 \<and>
      Size v2 = Size three_of_four \<and> elements h2 v2 = elements third_block three_of_four"
    by blast
  with inv d ins es show ?thesis by blast
qed

section \<open>Runs of PushBack and PopBack\<close>

text \<open>
  Claim C8. Take a vector that satisfies the invariant and a sequence of
  \<^verbatim>\<open>PushBack\<close> (of lvalues or rvalues) and \<^verbatim>\<open>PopBack\<close> calls in which no
  \<^verbatim>\<open>PopBack\<close> meets an empty vector. The run has no undefined behaviour, and when it
  returns, the final size plus the number of pops is the initial size plus the number of
  pushes, the elements are the initial ones with every push appended at the end and every
  pop removing the last element, and the indexed read at every \<open>i < size\<close> returns the
  \<open>i\<close>-th of them.
\<close>

theorem PushBack_PopBack_runs:
  assumes "vector_inv h v" "pops_allowed ops (Size v)"
  shows "(\<forall>u. run_stack T ops v h \<noteq> Undefined u) \<and>
         (run_stack T ops v h = Done v' h' \<longrightarrow>
            Size v' + pops ops = Size v + pushes ops \<and>
            elements h' v' = stack_contents ops (elements h v) \<and>
            (\<forall>i<Size v'. Vector_index v' i h' = Done (stack_contents ops (elements h v) ! i) h'))"
proof -
  from assms have spec: "case run_stack T ops v h of
           Done v' h' \<Rightarrow> vector_inv h' v' \<and> elements h' v' = stack_contents ops (elements h v)
         | Thrown e h' \<Rightarrow> True
         | Undefined u \<Rightarrow> False"
    by (intro run_stack_spec) (simp_all add: Size_def)
  then have "\<forall>u. run_stack T ops v h \<noteq> Undefined u" by (auto split: outcome.splits)
  moreover have "Size v' + pops ops = Size v + pushes ops \<and>
            elements h' v' = stack_contents ops (elements h v) \<and>
            (\<forall>i<Size v'. Vector_index v' i h' = Done (stack_contents ops (elements h v) ! i) h')"
    if run: "run_stack T ops v h = Done v' h'"
  proof -
    from spec run have 1: "vector_inv h' v'" "elements h' v' = stack_contents ops (elements h v)"
      by simp_all
    have "pops_allowed ops (length (elements h v))"
      using assms by (simp add: length_elements Size_def)
    from stack_contents_length[OF this] have "Size v' + pops ops = Size v + pushes ops"
      using length_elements[OF 1(1)] length_elements[OF assms(1)] 1(2) by (simp add: Size_def)
    then show ?thesis using 1 by (simp add: Vector_index_spec Size_def)
  qed
  ultimately show ?thesis by blast
qed


theorem PushBack_PopBack_runs_witness:
  "vector_inv no_blocks Vector_default \<and>
   pops_allowed [Push (1::nat), Push 2, Pop, Push_rvalue 3] (Size Vector_default) \<and>
   run_stack plain [Push 1, Push 2, Pop, Push_rvalue 3] Vector_default no_blocks =
     Done two_of_two second_block \<and>
   Size two_of_two + pops [Push (1::nat), Push 2, Pop, Push_rvalue 3] =
     Size Vector_default + pushes [Push (1::nat), Push 2, Pop, Push_rvalue 3] \<and>
   elements second_block two_of_two = [1, 3] \<and>
   Vector_index two_of_two 0 second_block = Done 1 second_block \<and>
   Vector_index two_of_two 1 second_block = Done 3 second_block"
proof -
  let ?ops = "[Push (1::nat), Push 2, Pop, Push_rvalue 3]"
  have inv: "vector_inv no_blocks Vector_default" by code_simp
  have pa: "pops_allowed ?ops (Size Vector_default)" by code_simp
  have run: "run_stack plain ?ops Vector_default no_blocks = Done two_of_two second_block"
    by code_simp
  have sc: "stack_contents ?ops (elements no_blocks Vector_default) = [1, 3]" by code_simp
  have sz: "Size two_of_two = 2" by code_simp
  from PushBack_PopBack_runs [OF inv pa, of plain two_of_two second_block] run sc
  have 1: "Size two_of_two + pops ?ops = Size Vector_default + pushes ?ops"
    "elements second_block two_of_two = [1, 3]"
    and 2: "\<forall>i<Size two_of_two. Vector_index two_of_two i second_block = Done ([1, 3] ! i) second_block"
    by simp_all
  from 2 sz have "Vector_index two_of_two 0 second_block = Done 1 second_block"
    "Vector_index two_of_two 1 second_block = Done 3 second_block"
    by simp_all
  with inv pa run 1 show ?thesis by blast
qed

section \<open>The iterators and the reference that are returned\<close>




section \<open>Copy assignment into a vector that is too small\<close>

text \<open>
  Claim C6. Let the vectors of the program satisfy the invariant with no block shared, and
  let the capacity of the destination be smaller than the size of the source. The copy
  assignment has no undefined behaviour. When it returns, only the destination object has
  changed, it satisfies the invariant, and it has the size and the elements of the source,
  which still holds its elements. When it leaves by an exception (of the allocation or of
  a copy constructor), every block that existed before the call is as it was, so the
  destination, whose members are not assigned on that path, holds the elements it held.
\<close>

theorem copy_assign_strong_guarantee:
  assumes "world_inv h vs" "this < length vs" "rhs < length vs"
    "Capacity (vs ! this) < Size (vs ! rhs)"
  shows "case Vector_copy_assign T this rhs vs h of
           Done vs' h' \<Rightarrow>
             vs' = vs[this := vs' ! this] \<and> vector_inv h' (vs' ! this) \<and>
             Size (vs' ! this) = Size (vs ! rhs) \<and>
             elements h' (vs' ! this) = elements h (vs ! rhs) \<and>
             elements h' (vs ! rhs) = elements h (vs ! rhs)
         | Thrown e h' \<Rightarrow>
             preserved h h' \<and> vector_inv h' (vs ! this) \<and>
             elements h' (vs ! this) = elements h (vs ! this)
         | Undefined u \<Rightarrow> False"
proof -
  have v: "vector_inv h (vs ! this)" and r: "vector_inv h (vs ! rhs)"
    using assms by (simp_all add: world_inv_nth)
  have ne: "this \<noteq> rhs"
    using assms(4) v by (auto simp: vector_inv_def Capacity_def Size_def RawMemory_Capacity_def)
  have disj: "set (own (vs ! this)) \<inter> set (own (vs ! rhs)) = {}"
    using world_inv_disj[OF assms(1-3) ne] .
  have small: "Capacity (vs ! this) < m_size (vs ! rhs)" using assms(4) by (simp add: Size_def)
  note body = copy_assign_body_realloc[OF v r disj small, where T=T]
  show ?thesis
  proof (cases "copy_assign_body T (vs ! rhs) (vs ! this) h")
    case (Done v' h')
    with body assms(2,3) ne show ?thesis
      by (simp add: Vector_copy_assign_def Size_def)
  next
    case (Thrown e h')
    with body have "preserved h h'" by simp
    with preserved_inv[OF this v] Thrown assms(2,3) ne show ?thesis
      by (simp add: Vector_copy_assign_def)
  next
    case (Undefined u)
    with body show ?thesis by simp
  qed
qed

theorem copy_assign_strong_guarantee_witness:
  "world_inv unlucky_block [Vector_default, two_of_two] \<and>
   (0::nat) < length [Vector_default, two_of_two] \<and>
   (1::nat) < length [Vector_default, two_of_two] \<and>
   Capacity ([Vector_default, two_of_two] ! 0) < Size ([Vector_default, two_of_two] ! 1) \<and>
   Vector_copy_assign plain 0 1 [Vector_default, two_of_two] unlucky_block =
     Done [copied_vector, two_of_two] unlucky_block_copied \<and>
   elements unlucky_block_copied copied_vector = elements unlucky_block two_of_two \<and>
   elements unlucky_block two_of_two = [1, 13] \<and>
   Vector_copy_assign picky 0 1 [Vector_default, two_of_two] unlucky_block =
     Thrown elem_exception unlucky_block_after_throw \<and>
   elements unlucky_block_after_throw Vector_default = elements unlucky_block Vector_default"
proof -
  let ?vs = "[Vector_default, two_of_two]"
  have w: "world_inv unlucky_block ?vs"
    by (simp add: world_inv_def vector_inv_def own_def Vector_default_def RawMemory_default_def
        two_of_two_def unlucky_block_def block_at_def less_Suc_eq)
  have l: "(0::nat) < length ?vs" "(1::nat) < length ?vs" by simp_all
  have small: "Capacity (?vs ! 0) < Size (?vs ! 1)" by code_simp
  have run: "Vector_copy_assign plain 0 1 ?vs unlucky_block =
     Done [copied_vector, two_of_two] unlucky_block_copied"
    "Vector_copy_assign picky 0 1 ?vs unlucky_block =
     Thrown elem_exception unlucky_block_after_throw"
    by code_simp+
  have es: "elements unlucky_block two_of_two = [1, 13]" by code_simp
  from copy_assign_strong_guarantee [OF w l small, where T = plain] run(1)
  have 1: "elements unlucky_block_copied copied_vector = elements unlucky_block two_of_two"
    by simp
  from copy_assign_strong_guarantee [OF w l small, where T = picky] run(2)
  have 2: "elements unlucky_block_after_throw Vector_default =
     elements unlucky_block Vector_default"
    by simp
  from w l small run es 1 2 show ?thesis by blast
qed

section \<open>The invariant after every run of operations\<close>




end
